theory Spec2Isabelle
  imports Complex_Main "HOL-Library.Char_ord" "HOL-Library.List_Lexorder"
    "HOL-Library.Product_Lexorder"
begin

section \<open>Python values used by the notebook\<close>

text \<open>
  The notebook is Python on top of the standard library and pandas. Python exceptions are
  values of \<open>py_error\<close>; a computation that may raise returns \<open>py_error + 'a\<close>, with
  \<open>Inl\<close> for the exception. A Python \<open>str\<close> is a \<open>string\<close> whose characters are the code
  points below 256; Python's \<open>int\<close> is \<open>int\<close>.
\<close>

datatype py_error = AttributeError | ValueError | TypeError | OverflowError | KeyError
  | FileNotFoundError

subsection \<open>\<open>str.split(sep)\<close> with a one-character separator\<close>

text \<open>
  \<open>s.split('h')\<close> cuts \<open>s\<close> at every occurrence of the separator and always returns at
  least one piece: \<open>'h12'.split('h') = ['', '12']\<close>, \<open>'abc'.split('h') = ['abc']\<close>.
\<close>

fun split :: "char \<Rightarrow> string \<Rightarrow> string list" where
  "split sep [] = [[]]"
| "split sep (c # cs) =
     (if c = sep then [] # split sep cs
      else (case split sep cs of [] \<Rightarrow> [[c]] | w # ws \<Rightarrow> (c # w) # ws))"

subsection \<open>\<open>int(str)\<close>\<close>

text \<open>
  \<open>int(s)\<close> in base ten: optional white space, an optional sign, decimal digits in which
  single underscores may stand between two digits, optional white space. Anything else
  raises \<open>ValueError\<close>. White space is tab, line feed, vertical tab, form feed, carriage
  return and space, and the two Latin-1 spaces U+0085 and U+00A0.
\<close>

definition is_space :: "char \<Rightarrow> bool" where
  "is_space c = (of_char c \<in> {9, 10, 11, 12, 13, 32, 133, 160 :: nat})"

definition is_digit :: "char \<Rightarrow> bool" where
  "is_digit c = (48 \<le> (of_char c :: nat) \<and> (of_char c :: nat) \<le> 57)"

definition digit_value :: "char \<Rightarrow> int" where
  "digit_value c = int (of_char c) - 48"

text \<open>
  The digit scanner: \<open>prev\<close> says whether the character before was a digit (an underscore
  is accepted only then, and must be followed by a digit); \<open>acc\<close> is the value read so
  far. The scan stops at the first character that is neither, and returns the value with
  the rest of the text; \<open>None\<close> is a misplaced underscore.
\<close>

fun scan_digits :: "bool \<Rightarrow> int \<Rightarrow> string \<Rightarrow> (int \<times> string) option" where
  "scan_digits prev acc [] = Some (acc, [])"
| "scan_digits prev acc (c # cs) =
     (if is_digit c then scan_digits True (10 * acc + digit_value c) cs
      else if c = CHR ''_'' then
        (if prev \<and> cs \<noteq> [] \<and> is_digit (hd cs) then scan_digits False acc cs else None)
      else Some (acc, c # cs))"

definition py_int :: "string \<Rightarrow> py_error + int" where
  "py_int s =
     (let s1 = dropWhile is_space s;
          (sign, s2) = (case s1 of
                          c # cs \<Rightarrow> (if c = CHR ''+'' then (1, cs)
                                     else if c = CHR ''-'' then (-1, cs) else (1, s1))
                        | [] \<Rightarrow> (1, s1))
      in if s2 \<noteq> [] \<and> is_digit (hd s2) then
           (case scan_digits False 0 s2 of
              None \<Rightarrow> Inl ValueError
            | Some (v, rest) \<Rightarrow>
                (if dropWhile is_space rest = [] then Inr (sign * v) else Inl ValueError))
         else Inl ValueError)"

section \<open>Timestamp Deriver\<close>

subsection \<open>The calendar of Python's \<open>datetime\<close> module\<close>

text \<open>
  \<open>datetime\<close> is the proleptic Gregorian calendar with years 1 to 9999. A date's ordinal
  is its day number, 1 January of year 1 being day 1. The functions below are the ones
  of the module (\<open>_is_leap\<close>, \<open>_days_before_year\<close>, \<open>_days_in_month\<close>,
  \<open>_days_before_month\<close>, \<open>_ymd2ord\<close>, \<open>_ord2ymd\<close>), with \<open>//\<close> as \<open>div\<close> and \<open>%\<close> as
  \<open>mod\<close> (both round towards minus infinity, in Python and in HOL).
\<close>

definition MAXORDINAL :: int where
  "MAXORDINAL = 3652059"

definition DAYS_IN_MONTH :: "int list" where
  "DAYS_IN_MONTH = [-1, 31, 28, 31, 30, 31, 30, 31, 31, 30, 31, 30, 31]"

definition DAYS_BEFORE_MONTH :: "int list" where
  "DAYS_BEFORE_MONTH = [-1, 0, 31, 59, 90, 120, 151, 181, 212, 243, 273, 304, 334]"

definition is_leap :: "int \<Rightarrow> bool" where
  "is_leap y = (y mod 4 = 0 \<and> (y mod 100 \<noteq> 0 \<or> y mod 400 = 0))"

definition days_before_year :: "int \<Rightarrow> int" where
  "days_before_year y = (let z = y - 1 in z * 365 + z div 4 - z div 100 + z div 400)"

definition days_in_month :: "int \<Rightarrow> int \<Rightarrow> int" where
  "days_in_month y m = (if m = 2 \<and> is_leap y then 29 else DAYS_IN_MONTH ! nat m)"

definition days_before_month :: "int \<Rightarrow> int \<Rightarrow> int" where
  "days_before_month y m = DAYS_BEFORE_MONTH ! nat m + (if m > 2 \<and> is_leap y then 1 else 0)"

definition ymd2ord :: "int \<Rightarrow> int \<Rightarrow> int \<Rightarrow> int" where
  "ymd2ord y m d = days_before_year y + days_before_month y m + d"

definition DI400Y :: int where "DI400Y = 146097"
definition DI100Y :: int where "DI100Y = 36524"
definition DI4Y :: int where "DI4Y = 1461"

text \<open>
  \<open>_ord2ymd\<close>: the ordinal is cut into 400-year, 100-year and 4-year cycles and single
  years; the last day of a cycle is the one case where a quotient reaches 4. The month
  is estimated as \<open>(n + 50) >> 5\<close>, which is right or one too large.
\<close>

definition ord2ymd :: "int \<Rightarrow> int \<times> int \<times> int" where
  "ord2ymd ordinal =
     (let n = ordinal - 1;
          n400 = n div DI400Y; n = n mod DI400Y;
          y = n400 * 400 + 1;
          n100 = n div DI100Y; n = n mod DI100Y;
          n4 = n div DI4Y; n = n mod DI4Y;
          n1 = n div 365; n = n mod 365;
          y = y + n100 * 100 + n4 * 4 + n1
      in if n1 = 4 \<or> n100 = 4 then (y - 1, 12, 31)
         else
           (let leapyear = (n1 = 3 \<and> (n4 \<noteq> 24 \<or> n100 = 3));
                m = (n + 50) div 32;
                preceding = DAYS_BEFORE_MONTH ! nat m + (if m > 2 \<and> leapyear then 1 else 0)
            in if preceding > n then
                 (let m = m - 1;
                      preceding = preceding
                        - (DAYS_IN_MONTH ! nat m + (if m = 2 \<and> leapyear then 1 else 0))
                  in (y, m, n - preceding + 1))
               else (y, m, n - preceding + 1)))"

subsection \<open>\<open>timedelta\<close> and \<open>datetime\<close>\<close>

record timedelta =
  days :: int
  seconds :: int
  microseconds :: int

text \<open>
  The constructor \<open>timedelta(days, seconds, microseconds)\<close> on integers: the three
  fields are normalised (\<open>0 \<le> seconds < 86400\<close>, \<open>0 \<le> microseconds < 1000000\<close>) and more
  than 999999999 days either way raise \<open>OverflowError\<close>.
\<close>

definition timedelta_new :: "int \<Rightarrow> int \<Rightarrow> int \<Rightarrow> py_error + timedelta" where
  "timedelta_new d s us =
     (let s1 = s + us div 1000000;
          d1 = d + s1 div 86400
      in if abs d1 > 999999999 then Inl OverflowError
         else Inr \<lparr>days = d1, seconds = s1 mod 86400, microseconds = us mod 1000000\<rparr>)"

record datetime =
  dt_year :: int
  dt_month :: int
  dt_day :: int
  dt_hour :: int
  dt_minute :: int
  dt_second :: int
  dt_microsecond :: int

text \<open>
  The constructor \<open>datetime(year, month, day, hour, minute, second, microsecond)\<close> checks
  its fields and raises \<open>ValueError\<close> on one out of range.
\<close>

definition check_fields :: "datetime \<Rightarrow> bool" where
  "check_fields t =
     (1 \<le> dt_year t \<and> dt_year t \<le> 9999 \<and> 1 \<le> dt_month t \<and> dt_month t \<le> 12 \<and>
      1 \<le> dt_day t \<and> dt_day t \<le> days_in_month (dt_year t) (dt_month t) \<and>
      0 \<le> dt_hour t \<and> dt_hour t \<le> 23 \<and> 0 \<le> dt_minute t \<and> dt_minute t \<le> 59 \<and>
      0 \<le> dt_second t \<and> dt_second t \<le> 59 \<and> 0 \<le> dt_microsecond t \<and> dt_microsecond t \<le> 999999)"

definition datetime_new :: "int \<Rightarrow> int \<Rightarrow> int \<Rightarrow> int \<Rightarrow> int \<Rightarrow> int \<Rightarrow> int \<Rightarrow> py_error + datetime" where
  "datetime_new y m d hh mm ss us =
     (let t = \<lparr>dt_year = y, dt_month = m, dt_day = d, dt_hour = hh, dt_minute = mm, dt_second = ss,
                dt_microsecond = us\<rparr>
      in if check_fields t then Inr t else Inl ValueError)"

definition toordinal :: "datetime \<Rightarrow> int" where
  "toordinal t = ymd2ord (dt_year t) (dt_month t) (dt_day t)"

text \<open>
  \<open>datetime.__add__\<close>: the date and time of day become a \<open>timedelta\<close> since day 0, the
  two are added, and the sum is turned back into a date, which must lie in years 1 to
  9999; \<open>OverflowError\<close> otherwise.
\<close>

definition datetime_add :: "datetime \<Rightarrow> timedelta \<Rightarrow> py_error + datetime" where
  "datetime_add t other =
     (case timedelta_new (toordinal t) (dt_hour t * 3600 + dt_minute t * 60 + dt_second t) (dt_microsecond t) of
        Inl e \<Rightarrow> Inl e
      | Inr self \<Rightarrow>
          (case timedelta_new (days self + days other) (seconds self + seconds other)
                  (microseconds self + microseconds other) of
             Inl e \<Rightarrow> Inl e
           | Inr delta \<Rightarrow>
               (if 0 < days delta \<and> days delta \<le> MAXORDINAL then
                  (case ord2ymd (days delta) of
                     (y, m, d) \<Rightarrow>
                       Inr \<lparr>dt_year = y, dt_month = m, dt_day = d,
                            dt_hour = seconds delta div 3600,
                            dt_minute = (seconds delta mod 3600) div 60,
                            dt_second = (seconds delta mod 3600) mod 60,
                            dt_microsecond = microseconds delta\<rparr>)
                else Inl OverflowError)))"

subsection \<open>\<open>create_date\<close>\<close>

text \<open>
  \<^verbatim>\<open>
  def create_date(h):
      start = datetime.datetime(2015, 1, 1)
      return start + datetime.timedelta(hours=h-1) #Rezero hourly integer column
  \<close>
  \<open>timedelta(hours=k)\<close> is \<open>timedelta(0, k * 3600, 0)\<close>.
\<close>

definition create_date :: "int \<Rightarrow> py_error + datetime" where
  "create_date h =
     (case datetime_new 2015 1 1 0 0 0 0 of
        Inl e \<Rightarrow> Inl e
      | Inr start \<Rightarrow>
          (case timedelta_new 0 ((h - 1) * 3600) 0 of
             Inl e \<Rightarrow> Inl e
           | Inr delta \<Rightarrow> datetime_add start delta))"

section \<open>Column Normalizer\<close>

text \<open>
  A column label of a dataframe is any Python object; the notebook meets strings (the CSV
  header), integers (after the renaming) and datetimes (after \<open>create_date\<close>).
\<close>

datatype label = LStr string | LInt int | LDate datetime

text \<open>
  \<^verbatim>\<open>
  def rename_hvars(vname):
      try:
          hstring, hour = vname.split('h')
          return int(hour)
      except:
          return vname
  \<close>
  The body of the \<open>try\<close>: an integer or a datetime has no \<open>split\<close> (\<open>AttributeError\<close>), the unpacking
  into two names needs exactly two pieces (\<open>ValueError\<close> otherwise), and \<open>int\<close> may raise
  \<open>ValueError\<close>. The bare \<open>except\<close> turns every exception into the label itself.
\<close>

fun rename_hvars_try :: "label \<Rightarrow> py_error + label" where
  "rename_hvars_try (LInt n) = Inl AttributeError"
| "rename_hvars_try (LDate t) = Inl AttributeError"
| "rename_hvars_try (LStr vname) =
     (case split CHR ''h'' vname of
        [hstring, hour] \<Rightarrow> (case py_int hour of Inl e \<Rightarrow> Inl e | Inr n \<Rightarrow> Inr (LInt n))
      | _ \<Rightarrow> Inl ValueError)"

definition rename_hvars :: "label \<Rightarrow> label" where
  "rename_hvars vname = (case rename_hvars_try vname of Inl e \<Rightarrow> vname | Inr r \<Rightarrow> r)"

section \<open>Reshaper\<close>

subsection \<open>Tables\<close>

text \<open>
  A dataframe is a list of rows. Every table of the notebook has the block identifier
  \<open>GEOID10\<close> (an integer), the \<open>Sector\<close> (a string) and emission values \<open>tC\<close>, which
  may be missing (\<open>NaN\<close>, here \<open>None\<close>). Emissions are floating-point numbers in the
  notebook and real numbers here: sums are exact.

  The raw table \<open>vulcan_df\<close> is wide: after the two identifier columns it has one column
  per hour, whose labels are \<open>columns\<close> and whose values in a row are its \<open>cells\<close>. A
  cell that a line of the CSV does not give is \<open>NaN\<close>.
\<close>

record wide_row =
  wide_GEOID10 :: int
  wide_Sector :: string
  cells :: "real option list"

record wide_df =
  columns :: "label list"
  wide_rows :: "wide_row list"

definition cell :: "wide_row \<Rightarrow> nat \<Rightarrow> real option" where
  "cell r j = (if j < length (cells r) then cells r ! j else None)"

record base_row =
  GEOID10 :: int
  Sector :: string
  tC :: "real option"

record 'h hour_row = base_row +
  Hour :: 'h

text \<open>
  \<open>df.rename(f, axis='columns')\<close> applies \<open>f\<close> to every column label. The identifier
  columns are among them; \<open>rename_hvars\<close> and the date renaming leave the strings
  \<open>GEOID10\<close> and \<open>Sector\<close> as they are.
\<close>

definition rename_columns :: "(label \<Rightarrow> label) \<Rightarrow> wide_df \<Rightarrow> wide_df" where
  "rename_columns f df = df\<lparr>columns := map f (columns df)\<rparr>"

text \<open>
  \<^verbatim>\<open>t_df = vulcan_df.rename(lambda x: create_date(x) if isinstance(x,int) else x,axis='columns')\<close>
  The first \<open>OverflowError\<close> of \<open>create_date\<close> ends the renaming.
\<close>

fun date_label :: "label \<Rightarrow> py_error + label" where
  "date_label (LInt x) = (case create_date x of Inl e \<Rightarrow> Inl e | Inr t \<Rightarrow> Inr (LDate t))"
| "date_label x = Inr x"

fun traverse :: "('a \<Rightarrow> py_error + 'b) \<Rightarrow> 'a list \<Rightarrow> py_error + 'b list" where
  "traverse f [] = Inr []"
| "traverse f (x # xs) =
     (case f x of
        Inl e \<Rightarrow> Inl e
      | Inr y \<Rightarrow> (case traverse f xs of Inl e \<Rightarrow> Inl e | Inr ys \<Rightarrow> Inr (y # ys)))"

definition rename_dates :: "wide_df \<Rightarrow> py_error + wide_df" where
  "rename_dates df =
     (case traverse date_label (columns df) of
        Inl e \<Rightarrow> Inl e
      | Inr ls \<Rightarrow> Inr (df\<lparr>columns := ls\<rparr>))"

subsection \<open>\<open>melt\<close>\<close>

text \<open>
  \<^verbatim>\<open>
  long_df = t_df.melt(id_vars = ['GEOID10','Sector'],
                      var_name = 'Hour',
                      value_name = 'tC')
  \<close>
  Every column that is not an identifier is unpivoted. pandas lays the result out column
  by column: all rows for the first hour column, then all rows for the second, and so
  on, the rows in their order in the wide table.
\<close>

definition melt_column :: "wide_row list \<Rightarrow> nat \<times> label \<Rightarrow> label hour_row list" where
  "melt_column rs jc =
     map (\<lambda>r. \<lparr>GEOID10 = wide_GEOID10 r, Sector = wide_Sector r, tC = cell r (fst jc),
                Hour = snd jc\<rparr>) rs"

definition melt :: "wide_df \<Rightarrow> label hour_row list" where
  "melt df = concat (map (melt_column (wide_rows df)) (enumerate 0 (columns df)))"

subsection \<open>The period columns\<close>

text \<open>
  The values of a period column: a timestamp, or a pandas \<open>Period\<close> of frequency day,
  month or year, given by its calendar fields.
\<close>

datatype pvalue = Timestamp datetime | Period_D int int int | Period_M int int | Period_Y int

text \<open>
  \<open>date.weekday()\<close>: Monday is 0 and Sunday is 6. \<open>date.fromordinal(n)\<close> at midnight.
\<close>

definition weekday :: "datetime \<Rightarrow> int" where
  "weekday t = (toordinal t + 6) mod 7"

definition fromordinal :: "int \<Rightarrow> datetime" where
  "fromordinal n =
     (case ord2ymd n of
        (y, m, d) \<Rightarrow> \<lparr>dt_year = y, dt_month = m, dt_day = d, dt_hour = 0, dt_minute = 0, dt_second = 0,
                      dt_microsecond = 0\<rparr>)"

text \<open>
  \<open>to_period('W')\<close> is the weekly frequency \<open>W-SUN\<close>: weeks that end on Sunday. The
  \<open>start_time\<close> of such a period is the midnight that begins its Monday.
\<close>

definition week_start_time :: "datetime \<Rightarrow> datetime" where
  "week_start_time t = fromordinal (toordinal t - weekday t)"

record long_row = "datetime hour_row" +
  Day :: pvalue
  Week :: pvalue
  Month :: pvalue
  Year :: pvalue

text \<open>
  \<^verbatim>\<open>
  long_df['Day'] = long_df.Hour.dt.to_period('D')
  long_df['Week'] = long_df.Hour.dt.to_period('W').apply(lambda r: r.start_time)
  long_df['Month'] = long_df.Hour.dt.to_period('M')
  long_df['Year'] = long_df.Hour.dt.to_period('Y')
  \<close>
  The accessor \<open>.dt\<close> needs a column of datetimes and raises \<open>AttributeError\<close> on
  another one, which is what a column label that is not a date leaves behind.
\<close>

fun add_periods :: "label hour_row \<Rightarrow> py_error + long_row" where
  "add_periods r =
     (case Hour r of
        LDate t \<Rightarrow>
          Inr \<lparr>GEOID10 = GEOID10 r, Sector = Sector r, tC = tC r, Hour = t,
               Day = Period_D (dt_year t) (dt_month t) (dt_day t),
               Week = Timestamp (week_start_time t),
               Month = Period_M (dt_year t) (dt_month t),
               Year = Period_Y (dt_year t)\<rparr>
      | _ \<Rightarrow> Inl AttributeError)"

definition long_df_of :: "wide_df \<Rightarrow> py_error + long_row list" where
  "long_df_of vulcan_df =
     (case rename_dates (rename_columns rename_hvars vulcan_df) of
        Inl e \<Rightarrow> Inl e
      | Inr t_df \<Rightarrow> traverse add_periods (melt t_df))"

section \<open>Aggregator\<close>

text \<open>
  The five emission tables have four columns: the block, the sector, one period column
  and \<open>tC\<close>. The name of the period column (\<open>Hour\<close>, \<open>Day\<close>, \<open>Week\<close>, \<open>Month\<close>,
  \<open>Year\<close>) is kept with the table.
\<close>

record period_row = base_row +
  Period :: pvalue

record 'r df =
  period_col :: string
  rows :: "'r list"

text \<open>
  \<open>sum()\<close> of a group skips \<open>NaN\<close>; a group with nothing else sums to 0.
\<close>

fun nansum :: "real option list \<Rightarrow> real" where
  "nansum [] = 0"
| "nansum (None # xs) = nansum xs"
| "nansum (Some v # xs) = v + nansum xs"

text \<open>
  \<open>groupby(['GEOID10','Sector',period]).sum().reset_index()\<close>: one row per distinct key,
  the keys in ascending order (integers by value, strings by code point, periods and
  timestamps by time), with the sum of the group's \<open>tC\<close>.
\<close>

fun pvalue_order :: "pvalue \<Rightarrow> int list" where
  "pvalue_order (Timestamp t) =
     [dt_year t, dt_month t, dt_day t, dt_hour t, dt_minute t, dt_second t, dt_microsecond t]"
| "pvalue_order (Period_D y m d) = [y, m, d]"
| "pvalue_order (Period_M y m) = [y, m]"
| "pvalue_order (Period_Y y) = [y]"

definition group_key :: "period_row \<Rightarrow> int \<times> string \<times> pvalue" where
  "group_key r = (GEOID10 r, Sector r, Period r)"

definition key_order :: "int \<times> string \<times> pvalue \<Rightarrow> int \<times> string \<times> int list" where
  "key_order k = (fst k, fst (snd k), pvalue_order (snd (snd k)))"

definition group_keys :: "period_row list \<Rightarrow> (int \<times> string \<times> pvalue) list" where
  "group_keys rs = sort_key key_order (remdups (map group_key rs))"

definition group_sum :: "period_row list \<Rightarrow> int \<times> string \<times> pvalue \<Rightarrow> period_row" where
  "group_sum rs k =
     \<lparr>GEOID10 = fst k, Sector = fst (snd k),
      tC = Some (nansum (map tC (filter (\<lambda>r. group_key r = k) rs))),
      Period = snd (snd k)\<rparr>"

definition groupby_sum :: "period_row df \<Rightarrow> period_row df" where
  "groupby_sum t = t\<lparr>rows := map (group_sum (rows t)) (group_keys (rows t))\<rparr>"

text \<open>
  \<open>long_df[['GEOID10','Sector',p,'tC']]\<close>: the four columns for one period column.
\<close>

definition select_period :: "string \<Rightarrow> (long_row \<Rightarrow> pvalue) \<Rightarrow> long_row list \<Rightarrow> period_row df" where
  "select_period p col long_df =
     \<lparr>period_col = p,
      rows = map (\<lambda>r. \<lparr>GEOID10 = GEOID10 r, Sector = Sector r, tC = tC r, Period = col r\<rparr>)
               long_df\<rparr>"

text \<open>
  \<^verbatim>\<open>
  long_df_hour = long_df[['GEOID10','Sector','Hour','tC']]
  long_df_day = long_df[['GEOID10','Sector','Day','tC']].groupby(['GEOID10','Sector','Day']).sum().reset_index()
  \<close>
  and the same for \<open>Week\<close>, \<open>Month\<close> and \<open>Year\<close>.
\<close>

definition long_df_hour :: "long_row list \<Rightarrow> period_row df" where
  "long_df_hour long_df = select_period ''Hour'' (\<lambda>r. Timestamp (Hour r)) long_df"

definition long_df_day :: "long_row list \<Rightarrow> period_row df" where
  "long_df_day long_df = groupby_sum (select_period ''Day'' Day long_df)"

definition long_df_week :: "long_row list \<Rightarrow> period_row df" where
  "long_df_week long_df = groupby_sum (select_period ''Week'' Week long_df)"

definition long_df_month :: "long_row list \<Rightarrow> period_row df" where
  "long_df_month long_df = groupby_sum (select_period ''Month'' Month long_df)"

definition long_df_year :: "long_row list \<Rightarrow> period_row df" where
  "long_df_year long_df = groupby_sum (select_period ''Year'' Year long_df)"

record aggregates =
  agg_hour :: "period_row df"
  agg_day :: "period_row df"
  agg_week :: "period_row df"
  agg_month :: "period_row df"
  agg_year :: "period_row df"

definition aggregator :: "long_row list \<Rightarrow> aggregates" where
  "aggregator long_df =
     \<lparr>agg_hour = long_df_hour long_df, agg_day = long_df_day long_df,
      agg_week = long_df_week long_df, agg_month = long_df_month long_df,
      agg_year = long_df_year long_df\<rparr>"

section \<open>Geo-Joiner\<close>

subsection \<open>The polygon table and its integer identifier\<close>

text \<open>
  A row of the shapefile: the identifier \<open>GEOID10\<close> as text, the name, the land and water
  areas and the polygon, whose representation plays no part here.
\<close>

record 'g shape_row =
  shape_GEOID10 :: string
  shape_NAME10 :: string
  shape_ALAND10 :: int
  shape_AWATER10 :: int
  shape_geometry :: 'g

record 'g shape_int_row = "'g shape_row" +
  shape_GEOID10_int :: int

text \<open>
  \<^verbatim>\<open>shape_df['GEOID10_int'] = shape_df.GEOID10.apply(int)\<close>
  \<open>int\<close> is applied row by row; its first \<open>ValueError\<close> is not caught.
\<close>

definition add_GEOID10_int :: "'g shape_row \<Rightarrow> py_error + 'g shape_int_row" where
  "add_GEOID10_int r =
     (case py_int (shape_GEOID10 r) of
        Inl e \<Rightarrow> Inl e
      | Inr n \<Rightarrow>
          Inr \<lparr>shape_GEOID10 = shape_GEOID10 r, shape_NAME10 = shape_NAME10 r,
               shape_ALAND10 = shape_ALAND10 r, shape_AWATER10 = shape_AWATER10 r,
               shape_geometry = shape_geometry r, shape_GEOID10_int = n\<rparr>)"

definition apply_int :: "'g shape_row list \<Rightarrow> py_error + 'g shape_int_row list" where
  "apply_int shape_df = traverse add_GEOID10_int shape_df"

subsection \<open>The left merge\<close>

text \<open>
  \<^verbatim>\<open>
  long_df.merge(shape_df[['GEOID10_int','NAME10','ALAND10','AWATER10','geometry']],
                how = 'left', left_on = 'GEOID10', right_on = 'GEOID10_int')
  \<close>
  A row of the merged table has the left row's columns and the five columns of the
  polygon table, which are \<open>NaN\<close> when no polygon matches. A left row with several matching
  polygons is repeated, once per polygon, in the polygons' order; the left rows keep
  their order.
\<close>

record 'g merged_row = period_row +
  GEOID10_int :: "int option"
  NAME10 :: "string option"
  ALAND10 :: "int option"
  AWATER10 :: "int option"
  right_geometry :: "'g option"

definition unmatched :: "period_row \<Rightarrow> 'g merged_row" where
  "unmatched l =
     \<lparr>GEOID10 = GEOID10 l, Sector = Sector l, tC = tC l, Period = Period l,
      GEOID10_int = None, NAME10 = None, ALAND10 = None, AWATER10 = None,
      right_geometry = None\<rparr>"

definition matched :: "period_row \<Rightarrow> 'g shape_int_row \<Rightarrow> 'g merged_row" where
  "matched l s =
     \<lparr>GEOID10 = GEOID10 l, Sector = Sector l, tC = tC l, Period = Period l,
      GEOID10_int = Some (shape_GEOID10_int s), NAME10 = Some (shape_NAME10 s),
      ALAND10 = Some (shape_ALAND10 s), AWATER10 = Some (shape_AWATER10 s),
      right_geometry = Some (shape_geometry s)\<rparr>"

definition merge_row :: "'g shape_int_row list \<Rightarrow> period_row \<Rightarrow> 'g merged_row list" where
  "merge_row right l =
     (case filter (\<lambda>s. shape_GEOID10_int s = GEOID10 l) right of
        [] \<Rightarrow> [unmatched l]
      | m # ms \<Rightarrow> map (matched l) (m # ms))"

definition merge :: "period_row df \<Rightarrow> 'g shape_int_row list \<Rightarrow> 'g merged_row df" where
  "merge left right =
     \<lparr>period_col = period_col left, rows = concat (map (merge_row right) (rows left))\<rparr>"

subsection \<open>\<open>quick_df_cleanup\<close>\<close>

text \<open>
  \<^verbatim>\<open>
  def quick_df_cleanup(df,period_id):
      df = df.rename(columns = {'NAME10':'Urban Area','ALAND10':'Land Area','AWATER10':'Water Area'})
      df = df[['GEOID10','Sector','Urban Area','Land Area','Water Area','geometry',period_id,'tC']]
      return df
  \<close>
  The notebook defines the function twice, with the same text. Selecting the column
  \<open>period_id\<close> raises \<open>KeyError\<close> when the table has no such column; the callers pass one
  of the five period names. \<open>GEOID10_int\<close> is dropped.
\<close>

record 'g geo_row = period_row +
  Urban_Area :: "string option"
  Land_Area :: "int option"
  Water_Area :: "int option"
  geometry :: "'g option"

definition geo_of :: "'g merged_row \<Rightarrow> 'g geo_row" where
  "geo_of r =
     \<lparr>GEOID10 = GEOID10 r, Sector = Sector r, tC = tC r, Period = Period r,
      Urban_Area = NAME10 r, Land_Area = ALAND10 r, Water_Area = AWATER10 r,
      geometry = right_geometry r\<rparr>"

definition quick_df_cleanup :: "'g merged_row df \<Rightarrow> string \<Rightarrow> py_error + 'g geo_row df" where
  "quick_df_cleanup t period_id =
     (if period_col t = period_id
      then Inr \<lparr>period_col = period_id, rows = map geo_of (rows t)\<rparr>
      else Inl KeyError)"

subsection \<open>Files\<close>

text \<open>
  \<open>to_pickle\<close> and \<open>read_pickle\<close> write and read whole tables under a file name. The
  directory \<open>output_data\<close> is a map from file names to tables; reading a name that is not
  there raises \<open>FileNotFoundError\<close>. The emission files are read back as emission
  tables only; the model stops with \<open>TypeError\<close> on a file of the other kind, which the
  notebook never reads.
\<close>

datatype 'g pickle = Emissions "period_row df" | Geo "'g geo_row df"

type_synonym 'g store = "string \<Rightarrow> 'g pickle option"

definition to_pickle :: "'g pickle \<Rightarrow> string \<Rightarrow> 'g store \<Rightarrow> 'g store" where
  "to_pickle t name st = st(name \<mapsto> t)"

definition read_pickle :: "'g store \<Rightarrow> string \<Rightarrow> py_error + period_row df" where
  "read_pickle st name =
     (case st name of
        None \<Rightarrow> Inl FileNotFoundError
      | Some (Emissions t) \<Rightarrow> Inr t
      | Some (Geo t) \<Rightarrow> Inl TypeError)"

text \<open>Sequencing of steps that may raise: the first exception ends the run.\<close>

definition bind :: "py_error + 'a \<Rightarrow> ('a \<Rightarrow> py_error + 'b) \<Rightarrow> py_error + 'b" where
  "bind x f = (case x of Inl e \<Rightarrow> Inl e | Inr v \<Rightarrow> f v)"

text \<open>
  \<^verbatim>\<open>
  long_df_hour.to_pickle('output_data/hour_tc_dataset.pkl')
  \<close>
  and the same for day, week, month and year.
\<close>

definition write_tc_datasets :: "aggregates \<Rightarrow> 'g store \<Rightarrow> 'g store" where
  "write_tc_datasets a st =
     to_pickle (Emissions (agg_year a)) ''output_data/year_tc_dataset.pkl''
       (to_pickle (Emissions (agg_month a)) ''output_data/month_tc_dataset.pkl''
         (to_pickle (Emissions (agg_week a)) ''output_data/week_tc_dataset.pkl''
           (to_pickle (Emissions (agg_day a)) ''output_data/day_tc_dataset.pkl''
             (to_pickle (Emissions (agg_hour a)) ''output_data/hour_tc_dataset.pkl'' st))))"

subsection \<open>The first geo-join: five merges, five cleanups, five files\<close>

text \<open>
  The five emission tables are read back, the polygon identifiers are coerced, each
  table is merged, each merged table is cleaned up under its period name, and the five
  results are written.
\<close>

definition first_geo_join :: "'g shape_row list \<Rightarrow> 'g store \<Rightarrow> py_error + 'g store" where
  "first_geo_join shape_df st =
     bind (read_pickle st ''output_data/hour_tc_dataset.pkl'') (\<lambda>long_df_hour.
     bind (read_pickle st ''output_data/day_tc_dataset.pkl'') (\<lambda>long_df_day.
     bind (read_pickle st ''output_data/week_tc_dataset.pkl'') (\<lambda>long_df_week.
     bind (read_pickle st ''output_data/month_tc_dataset.pkl'') (\<lambda>long_df_month.
     bind (read_pickle st ''output_data/year_tc_dataset.pkl'') (\<lambda>long_df_year.
     bind (apply_int shape_df) (\<lambda>shape_int.
     bind (quick_df_cleanup (merge long_df_hour shape_int) ''Hour'') (\<lambda>hour_geo.
     bind (quick_df_cleanup (merge long_df_day shape_int) ''Day'') (\<lambda>day_geo.
     bind (quick_df_cleanup (merge long_df_week shape_int) ''Week'') (\<lambda>week_geo.
     bind (quick_df_cleanup (merge long_df_month shape_int) ''Month'') (\<lambda>month_geo.
     bind (quick_df_cleanup (merge long_df_year shape_int) ''Year'') (\<lambda>year_geo.
       Inr (to_pickle (Geo year_geo) ''output_data/year_geo.pkl''
             (to_pickle (Geo month_geo) ''output_data/month_geo.pkl''
               (to_pickle (Geo week_geo) ''output_data/week_geo.pkl''
                 (to_pickle (Geo day_geo) ''output_data/day_geo.pkl''
                   (to_pickle (Geo hour_geo) ''output_data/hour_geo.pkl'' st))))))))))))))))"

subsection \<open>The second geo-join: one loop over the period names\<close>

text \<open>
  \<open>str.lower()\<close> on code points below 256: the capital letters A to Z and the capital
  letters of Latin-1 (U+00C0 to U+00DE, without the multiplication sign U+00D7) move up
  by 32.
\<close>

definition lower_char :: "char \<Rightarrow> char" where
  "lower_char c =
     (let n = (of_char c :: nat)
      in if (65 \<le> n \<and> n \<le> 90) \<or> (192 \<le> n \<and> n \<le> 222 \<and> n \<noteq> 215)
         then char_of (n + 32) else c)"

definition lower :: "string \<Rightarrow> string" where
  "lower s = map lower_char s"

definition period_list :: "string list" where
  "period_list = [''Year'', ''Month'', ''Week'', ''Day'', ''Hour'']"

text \<open>
  \<^verbatim>\<open>
  for p in period_list:
      p_lower = p.lower()
      long_df = pd.read_pickle('output_data/'+p_lower+'_tc_dataset.pkl')
      t_df = long_df.merge(shape_df[[...]], how = 'left', left_on = 'GEOID10', right_on = 'GEOID10_int')
      quick_df_cleanup(t_df,p).to_pickle('output_data/'+p_lower+'_geo.pkl')
  \<close>
\<close>

fun geo_loop :: "string list \<Rightarrow> 'g shape_int_row list \<Rightarrow> 'g store \<Rightarrow> py_error + 'g store" where
  "geo_loop [] shape_int st = Inr st"
| "geo_loop (p # ps) shape_int st =
     (let p_lower = lower p in
      bind (read_pickle st (''output_data/'' @ p_lower @ ''_tc_dataset.pkl'')) (\<lambda>long_df.
      bind (quick_df_cleanup (merge long_df shape_int) p) (\<lambda>geo.
        geo_loop ps shape_int (to_pickle (Geo geo) (''output_data/'' @ p_lower @ ''_geo.pkl'') st))))"

definition second_geo_join :: "'g shape_row list \<Rightarrow> 'g store \<Rightarrow> py_error + 'g store" where
  "second_geo_join shape_df st =
     bind (read_pickle st ''output_data/year_tc_dataset.pkl'') (\<lambda>long_df_year.
     bind (apply_int shape_df) (\<lambda>shape_int.
       geo_loop period_list shape_int st))"

section \<open>Notions used to state the properties\<close>

subsection \<open>Integer literals\<close>

text \<open>The decimal value of a digit string, read from the left.\<close>

definition decimal :: "string \<Rightarrow> int" where
  "decimal ds = foldl (\<lambda>a c. 10 * a + digit_value c) 0 ds"

text \<open>
  The texts that \<open>int\<close> accepts, said without the scanner: after white space is taken
  off both ends and one sign off the front, what remains is digits in groups, with single
  underscores between the groups. The value of such a text is the number its digits
  spell, negated after a minus sign.
\<close>

definition strip :: "string \<Rightarrow> string" where
  "strip s = rev (dropWhile is_space (rev (dropWhile is_space s)))"

definition unsign :: "string \<Rightarrow> string" where
  "unsign s =
     (case s of [] \<Rightarrow> [] | c # cs \<Rightarrow> if c = CHR ''+'' \<or> c = CHR ''-'' then cs else s)"

fun digit_groups :: "string \<Rightarrow> bool" where
  "digit_groups [] = False"
| "digit_groups [c] = is_digit c"
| "digit_groups (c # d # ds) =
     (is_digit c \<and> (if d = CHR ''_'' then digit_groups ds else digit_groups (d # ds)))"

definition int_literal :: "string \<Rightarrow> bool" where
  "int_literal s = digit_groups (unsign (strip s))"

definition literal_value :: "string \<Rightarrow> int" where
  "literal_value s =
     (if strip s \<noteq> [] \<and> hd (strip s) = CHR ''-'' then - decimal (filter is_digit s)
      else decimal (filter is_digit s))"

text \<open>The characters that can stand in such a text.\<close>

definition literal_char :: "char \<Rightarrow> bool" where
  "literal_char c =
     (is_digit c \<or> is_space c \<or> c = CHR ''+'' \<or> c = CHR ''-'' \<or> c = CHR ''_'')"

subsection \<open>Datetimes and ISO weeks\<close>

text \<open>
  The date at midnight, and the number of whole hours from the start of day 0 of the
  calendar to a datetime: adding hours to a datetime adds to this count.
\<close>

definition midnight :: "int \<Rightarrow> int \<Rightarrow> int \<Rightarrow> datetime" where
  "midnight y m d =
     \<lparr>dt_year = y, dt_month = m, dt_day = d, dt_hour = 0, dt_minute = 0, dt_second = 0,
      dt_microsecond = 0\<rparr>"

definition hour_count :: "datetime \<Rightarrow> int" where
  "hour_count t = toordinal t * 24 + dt_hour t"

text \<open>
  \<open>plus_hours t0 k t\<close>: the datetime \<open>t\<close> of the calendar lies \<open>k\<close> hours after
  \<open>t0\<close>, with the minutes, seconds and microseconds of \<open>t0\<close>.
\<close>

definition plus_hours :: "datetime \<Rightarrow> int \<Rightarrow> datetime \<Rightarrow> bool" where
  "plus_hours t0 k t =
     (check_fields t \<and> dt_minute t = dt_minute t0 \<and> dt_second t = dt_second t0 \<and>
      dt_microsecond t = dt_microsecond t0 \<and> hour_count t = hour_count t0 + k)"




subsection \<open>Sums and buckets\<close>






subsection \<open>The geo-join of one table\<close>

text \<open>A polygon row with its integer identifier.\<close>

definition with_int :: "'g shape_row \<Rightarrow> int \<Rightarrow> 'g shape_int_row" where
  "with_int r n =
     \<lparr>shape_GEOID10 = shape_GEOID10 r, shape_NAME10 = shape_NAME10 r,
      shape_ALAND10 = shape_ALAND10 r, shape_AWATER10 = shape_AWATER10 r,
      shape_geometry = shape_geometry r, shape_GEOID10_int = n\<rparr>"





subsection \<open>Example tables\<close>

text \<open>
  A raw table of two blocks and the first three hours of the year, with one cell missing
  in each row; the long table it becomes; and the two rows of it for block 7 that have a
  value.
\<close>

definition ex_wide :: wide_df where
  "ex_wide =
     \<lparr>columns = [LStr ''h1'', LStr ''h2'', LStr ''h3''],
      wide_rows =
        [\<lparr>wide_GEOID10 = 7, wide_Sector = ''res'', cells = [Some 5, None, Some 3]\<rparr>,
         \<lparr>wide_GEOID10 = 3, wide_Sector = ''com'', cells = [Some 1, Some 2, None]\<rparr>]\<rparr>"

definition ex_row :: "int \<Rightarrow> string \<Rightarrow> int \<Rightarrow> real option \<Rightarrow> long_row" where
  "ex_row b s h v =
     \<lparr>GEOID10 = b, Sector = s, tC = v, Hour = (midnight 2015 1 1)\<lparr>dt_hour := h\<rparr>,
      Day = Period_D 2015 1 1, Week = Timestamp (midnight 2014 12 29),
      Month = Period_M 2015 1, Year = Period_Y 2015\<rparr>"

definition ex_long :: "long_row list" where
  "ex_long =
     [ex_row 7 ''res'' 0 (Some 5), ex_row 3 ''com'' 0 (Some 1),
      ex_row 7 ''res'' 1 None, ex_row 3 ''com'' 1 (Some 2),
      ex_row 7 ''res'' 2 (Some 3), ex_row 3 ''com'' 2 None]"


definition polygon :: "string \<Rightarrow> string \<Rightarrow> unit shape_row" where
  "polygon g n =
     \<lparr>shape_GEOID10 = g, shape_NAME10 = n, shape_ALAND10 = 10, shape_AWATER10 = 1,
      shape_geometry = ()\<rparr>"

definition polygon_int :: "string \<Rightarrow> string \<Rightarrow> int \<Rightarrow> unit shape_int_row" where
  "polygon_int g n i =
     \<lparr>shape_GEOID10 = g, shape_NAME10 = n, shape_ALAND10 = 10, shape_AWATER10 = 1,
      shape_geometry = (), shape_GEOID10_int = i\<rparr>"


section \<open>Properties of the Column Normalizer\<close>

lemma scan_digits_all_digits:
  "list_all is_digit ds \<Longrightarrow>
   scan_digits p a ds = Some (foldl (\<lambda>a c. 10 * a + digit_value c) a ds, [])"
  by (induction ds arbitrary: p a) auto

lemma is_digit_not_space: "is_digit c \<Longrightarrow> \<not> is_space c"
  by (auto simp: is_digit_def is_space_def)

lemma is_digit_not_sign: "is_digit c \<Longrightarrow> c \<noteq> CHR ''+'' \<and> c \<noteq> CHR ''-'' \<and> c \<noteq> CHR ''h''"
  by (auto simp: is_digit_def)

lemma py_int_digits:
  assumes "ds \<noteq> []" and "list_all is_digit ds"
  shows "py_int ds = Inr (decimal ds)"
proof -
  obtain c cs where ds: "ds = c # cs" using assms(1) by (cases ds) auto
  have c: "is_digit c" using assms(2) ds by simp
  have "dropWhile is_space ds = ds" using c ds by (simp add: is_digit_not_space)
  moreover have "scan_digits False 0 ds = Some (decimal ds, [])"
    using scan_digits_all_digits [OF assms(2)] by (simp add: decimal_def)
  ultimately show ?thesis
    using c ds is_digit_not_sign [OF c] by (simp add: py_int_def)
qed

lemma split_no_sep: "sep \<notin> set s \<Longrightarrow> split sep s = [s]"
  by (induction s) auto

lemma split_one_sep:
  "sep \<notin> set a \<Longrightarrow> sep \<notin> set b \<Longrightarrow> split sep (a @ sep # b) = [a, b]"
  by (induction a) (auto simp: split_no_sep)

lemma digits_no_h: "list_all is_digit ds \<Longrightarrow> CHR ''h'' \<notin> set ds"
  using is_digit_not_sign by (auto simp: list_all_iff)

text \<open>
  The hour columns of the CSV: \<open>h\<close> followed by one or more digits becomes the integer
  the digits spell (leading zeros do not count).
\<close>

lemma rename_hvars_hour_column:
  assumes "ds \<noteq> []" and "list_all is_digit ds"
  shows "rename_hvars (LStr (CHR ''h'' # ds)) = LInt (decimal ds)"
proof -
  have "split CHR ''h'' ([] @ CHR ''h'' # ds) = [[], ds]"
    by (rule split_one_sep) (simp_all add: digits_no_h [OF assms(2)])
  then show ?thesis
    using py_int_digits [OF assms] by (simp add: rename_hvars_def)
qed

text \<open>
  What the code does on every label: a string is replaced by an integer exactly when it
  has one \<open>h\<close> and \<open>int\<close> accepts the text after it, whatever stands before the \<open>h\<close>.
\<close>

lemma rename_hvars_one_h:
  assumes "CHR ''h'' \<notin> set a" and "CHR ''h'' \<notin> set b"
  shows "rename_hvars (LStr (a @ CHR ''h'' # b)) =
           (case py_int b of Inl e \<Rightarrow> LStr (a @ CHR ''h'' # b) | Inr n \<Rightarrow> LInt n)"
  using split_one_sep [OF assms] by (simp add: rename_hvars_def split: sum.splits)

lemma rename_hvars_id_columns:
  "rename_hvars (LStr ''GEOID10'') = LStr ''GEOID10''"
  "rename_hvars (LStr ''Sector'') = LStr ''Sector''"
  by (simp_all add: rename_hvars_def)

text \<open>
  Claim C3. The column normalizer returns the integer for a label \<open>h<digits>\<close> and every
  other label unchanged. The code breaks the second half, as its own comment says
  ("Will break if any other column has "h" in its name"): the label \<open>month1\<close> is not of
  the form \<open>h<digits>\<close>, yet it splits into \<open>mont\<close> and \<open>1\<close> and comes back as the
  integer 1.
\<close>

theorem rename_hvars_month1: "rename_hvars (LStr ''month1'') = LInt 1"
  by (simp add: rename_hvars_def py_int_def is_digit_def is_space_def digit_value_def)

text \<open>
  Claim C7. The column normalizer is idempotent: an integer hour index has no \<open>split\<close>,
  the \<open>except\<close> branch returns it unchanged, and so a second renaming changes nothing.
\<close>

theorem rename_hvars_idempotent:
  "rename_hvars (LInt n) = LInt n \<and> rename_hvars (rename_hvars vname) = rename_hvars vname"
proof
  show int_label: "rename_hvars (LInt n) = LInt n" for n
    by (simp add: rename_hvars_def)
  show "rename_hvars (rename_hvars vname) = rename_hvars vname"
  proof (cases "rename_hvars_try vname")
    case (Inl e)
    then show ?thesis by (simp add: rename_hvars_def)
  next
    case (Inr r)
    then obtain k where "r = LInt k"
      by (cases vname) (auto split: list.splits sum.splits)
    with Inr show ?thesis by (simp add: rename_hvars_def)
  qed
qed

section \<open>Properties of the calendar\<close>

text \<open>
  \<open>_ord2ymd\<close> inverts \<open>_ymd2ord\<close>: the date it returns for an ordinal is a date of the
  calendar (month 1 to 12, day within the month) whose ordinal is the given one.
\<close>

lemma int_mod_eqI:
  fixes x :: int
  assumes "x = q * k + r" "0 \<le> r" "r < k"
  shows "x mod k = r"
  using assms by simp

lemma int_div_eqI:
  fixes x :: int
  assumes "x = q * k + r" "0 \<le> r" "r < k"
  shows "x div k = q"
  using assms by simp

lemma leap_decomp:
  assumes "0 \<le> b" "b \<le> 3" "0 \<le> c" "c \<le> 24" "0 \<le> d" "d \<le> 3"
  shows "is_leap (a * 400 + 1 + b * 100 + c * 4 + d) = (d = 3 \<and> (c \<noteq> 24 \<or> b = 3))"
proof -
  define y where "y = a * 400 + 1 + b * 100 + c * 4 + d"
  consider "d \<le> 2" | "d = 3" "c \<le> 23" | "d = 3" "c = 24" "b \<le> 2" | "d = 3" "c = 24" "b = 3"
    using assms by linarith
  then have "is_leap y = (d = 3 \<and> (c \<noteq> 24 \<or> b = 3))"
  proof cases
    case 1
    have "y mod 4 = d + 1"
      by (rule int_mod_eqI [where q = "a * 100 + b * 25 + c"]) (use assms 1 in \<open>simp_all add: y_def\<close>)
    then show ?thesis using 1 assms by (simp add: is_leap_def)
  next
    case 2
    have "y mod 4 = 0"
      by (rule int_mod_eqI [where q = "a * 100 + b * 25 + c + 1"]) (use assms 2 in \<open>simp_all add: y_def\<close>)
    moreover have "y mod 100 = 4 * c + 4"
      by (rule int_mod_eqI [where q = "a * 4 + b"]) (use assms 2 in \<open>simp_all add: y_def\<close>)
    ultimately show ?thesis using 2 assms by (simp add: is_leap_def)
  next
    case 3
    have "y mod 4 = 0"
      by (rule int_mod_eqI [where q = "a * 100 + b * 25 + c + 1"]) (use assms 3 in \<open>simp_all add: y_def\<close>)
    moreover have "y mod 100 = 0"
      by (rule int_mod_eqI [where q = "a * 4 + b + 1"]) (use assms 3 in \<open>simp_all add: y_def\<close>)
    moreover have "y mod 400 = 100 * b + 100"
      by (rule int_mod_eqI [where q = "a"]) (use assms 3 in \<open>simp_all add: y_def\<close>)
    ultimately show ?thesis using 3 assms by (simp add: is_leap_def)
  next
    case 4
    have "y mod 4 = 0"
      by (rule int_mod_eqI [where q = "a * 100 + b * 25 + c + 1"]) (use assms 4 in \<open>simp_all add: y_def\<close>)
    moreover have "y mod 400 = 0"
      by (rule int_mod_eqI [where q = "a + 1"]) (use assms 4 in \<open>simp_all add: y_def\<close>)
    ultimately show ?thesis using 4 assms by (simp add: is_leap_def)
  qed
  then show ?thesis by (simp add: y_def)
qed

lemma dby_decomp:
  assumes "0 \<le> b" "b \<le> 3" "0 \<le> c" "c \<le> 24" "0 \<le> d" "d \<le> 3"
  shows "days_before_year (a * 400 + 1 + b * 100 + c * 4 + d) = a * 146097 + b * 36524 + c * 1461 + d * 365"
proof -
  define z where "z = a * 400 + b * 100 + c * 4 + d"
  have z4: "z div 4 = a * 100 + b * 25 + c"
    by (rule int_div_eqI [where r = d]) (use assms in \<open>simp_all add: z_def\<close>)
  have z100: "z div 100 = a * 4 + b"
    by (rule int_div_eqI [where r = "c * 4 + d"]) (use assms in \<open>simp_all add: z_def\<close>)
  have z400: "z div 400 = a"
    by (rule int_div_eqI [where r = "b * 100 + c * 4 + d"]) (use assms in \<open>simp_all add: z_def\<close>)
  have "a * 400 + 1 + b * 100 + c * 4 + d - 1 = z" by (simp add: z_def)
  then show ?thesis
    unfolding days_before_year_def Let_def by (simp add: z4 z100 z400)
qed

lemma month_part:
  fixes n :: int and lp :: bool
  assumes "0 \<le> n" "n \<le> 364"
  defines "m0 \<equiv> (n + 50) div 32"
  defines "p0 \<equiv> DAYS_BEFORE_MONTH ! nat m0 + (if m0 > 2 \<and> lp then 1 else 0)"
  defines "m \<equiv> (if p0 > n then m0 - 1 else m0)"
  defines "p \<equiv> (if p0 > n then p0 - (DAYS_IN_MONTH ! nat (m0 - 1) + (if m0 - 1 = 2 \<and> lp then 1 else 0)) else p0)"
  shows "1 \<le> m \<and> m \<le> 12 \<and> p = DAYS_BEFORE_MONTH ! nat m + (if m > 2 \<and> lp then 1 else 0)
         \<and> p \<le> n \<and> n - p < (if m = 2 \<and> lp then 29 else DAYS_IN_MONTH ! nat m)"
proof -
  have "1 \<le> m0" "m0 \<le> 12" using assms(1,2) unfolding m0_def by linarith+
  then have "m0 = 1 \<or> m0 = 2 \<or> m0 = 3 \<or> m0 = 4 \<or> m0 = 5 \<or> m0 = 6 \<or> m0 = 7
    \<or> m0 = 8 \<or> m0 = 9 \<or> m0 = 10 \<or> m0 = 11 \<or> m0 = 12" by presburger
  then consider "m0 = 1" | "m0 = 2" | "m0 = 3" | "m0 = 4" | "m0 = 5" | "m0 = 6" | "m0 = 7"
    | "m0 = 8" | "m0 = 9" | "m0 = 10" | "m0 = 11" | "m0 = 12" by blast
  then show ?thesis
  proof cases
    case 1
    have "n \<le> 13" using 1 unfolding m0_def by linarith
    then show ?thesis using 1 assms(1,2) unfolding m_def p_def p0_def
      by (simp add: DAYS_BEFORE_MONTH_def DAYS_IN_MONTH_def)
  next
    case 2
    have "14 \<le> n" "n \<le> 45" using 2 unfolding m0_def by linarith+
    then show ?thesis using 2 unfolding m_def p_def p0_def
      by (auto simp add: DAYS_BEFORE_MONTH_def DAYS_IN_MONTH_def)
  next
    case 3
    have "46 \<le> n" "n \<le> 77" using 3 unfolding m0_def by linarith+
    then show ?thesis using 3 unfolding m_def p_def p0_def
      by (auto simp add: DAYS_BEFORE_MONTH_def DAYS_IN_MONTH_def)
  next
    case 4
    have "78 \<le> n" "n \<le> 109" using 4 unfolding m0_def by linarith+
    then show ?thesis using 4 unfolding m_def p_def p0_def
      by (auto simp add: DAYS_BEFORE_MONTH_def DAYS_IN_MONTH_def)
  next
    case 5
    have "110 \<le> n" "n \<le> 141" using 5 unfolding m0_def by linarith+
    then show ?thesis using 5 unfolding m_def p_def p0_def
      by (auto simp add: DAYS_BEFORE_MONTH_def DAYS_IN_MONTH_def)
  next
    case 6
    have "142 \<le> n" "n \<le> 173" using 6 unfolding m0_def by linarith+
    then show ?thesis using 6 unfolding m_def p_def p0_def
      by (auto simp add: DAYS_BEFORE_MONTH_def DAYS_IN_MONTH_def)
  next
    case 7
    have "174 \<le> n" "n \<le> 205" using 7 unfolding m0_def by linarith+
    then show ?thesis using 7 unfolding m_def p_def p0_def
      by (auto simp add: DAYS_BEFORE_MONTH_def DAYS_IN_MONTH_def)
  next
    case 8
    have "206 \<le> n" "n \<le> 237" using 8 unfolding m0_def by linarith+
    then show ?thesis using 8 unfolding m_def p_def p0_def
      by (auto simp add: DAYS_BEFORE_MONTH_def DAYS_IN_MONTH_def)
  next
    case 9
    have "238 \<le> n" "n \<le> 269" using 9 unfolding m0_def by linarith+
    then show ?thesis using 9 unfolding m_def p_def p0_def
      by (auto simp add: DAYS_BEFORE_MONTH_def DAYS_IN_MONTH_def)
  next
    case 10
    have "270 \<le> n" "n \<le> 301" using 10 unfolding m0_def by linarith+
    then show ?thesis using 10 unfolding m_def p_def p0_def
      by (auto simp add: DAYS_BEFORE_MONTH_def DAYS_IN_MONTH_def)
  next
    case 11
    have "302 \<le> n" "n \<le> 333" using 11 unfolding m0_def by linarith+
    then show ?thesis using 11 unfolding m_def p_def p0_def
      by (auto simp add: DAYS_BEFORE_MONTH_def DAYS_IN_MONTH_def)
  next
    case 12
    have "334 \<le> n" using 12 unfolding m0_def by linarith
    then show ?thesis using 12 assms(2) unfolding m_def p_def p0_def
      by (auto simp add: DAYS_BEFORE_MONTH_def DAYS_IN_MONTH_def)
  qed
qed

lemma ord2ymd_unfold:
  assumes "a = (n - 1) div 146097" "r1 = (n - 1) mod 146097" "b = r1 div 36524"
    "r2 = r1 mod 36524" "c = r2 div 1461" "r3 = r2 mod 1461" "d = r3 div 365" "r4 = r3 mod 365"
    "lp = (d = 3 \<and> (c \<noteq> 24 \<or> b = 3))"
    "m0 = (r4 + 50) div 32"
    "p0 = DAYS_BEFORE_MONTH ! nat m0 + (if m0 > 2 \<and> lp then 1 else 0)"
  shows "ord2ymd n =
    (if d = 4 \<or> b = 4 then (a * 400 + 1 + b * 100 + c * 4 + d - 1, 12, 31)
     else if p0 > r4 then
       (a * 400 + 1 + b * 100 + c * 4 + d, m0 - 1,
        r4 - (p0 - (DAYS_IN_MONTH ! nat (m0 - 1) + (if m0 - 1 = 2 \<and> lp then 1 else 0))) + 1)
     else (a * 400 + 1 + b * 100 + c * 4 + d, m0, r4 - p0 + 1))"
  unfolding assms ord2ymd_def Let_def DI400Y_def DI100Y_def DI4Y_def by (rule refl)

lemma ord2ymd_correct:
  "case ord2ymd n of (y, m, d) \<Rightarrow>
     1 \<le> m \<and> m \<le> 12 \<and> 1 \<le> d \<and> d \<le> days_in_month y m \<and> ymd2ord y m d = n"
proof -
  define a where "a = (n - 1) div 146097"
  define r1 where "r1 = (n - 1) mod 146097"
  define b where "b = r1 div 36524"
  define r2 where "r2 = r1 mod 36524"
  define c where "c = r2 div 1461"
  define r3 where "r3 = r2 mod 1461"
  define d where "d = r3 div 365"
  define r4 where "r4 = r3 mod 365"
  define lp where "lp = (d = 3 \<and> (c \<noteq> 24 \<or> b = 3))"
  define m0 where "m0 = (r4 + 50) div 32"
  define p0 where "p0 = DAYS_BEFORE_MONTH ! nat m0 + (if m0 > 2 \<and> lp then 1 else 0)"
  note u = ord2ymd_unfold [OF a_def r1_def b_def r2_def c_def r3_def d_def r4_def lp_def m0_def p0_def]
  have n: "n - 1 = a * 146097 + r1" and r1: "0 \<le> r1" "r1 < 146097"
    by (simp_all add: a_def r1_def)
  have r1': "r1 = b * 36524 + r2" and r2: "0 \<le> r2" "r2 < 36524"
    by (simp_all add: b_def r2_def)
  have r2': "r2 = c * 1461 + r3" and r3: "0 \<le> r3" "r3 < 1461"
    by (simp_all add: c_def r3_def)
  have r3': "r3 = d * 365 + r4" and r4: "0 \<le> r4" "r4 < 365"
    by (simp_all add: d_def r4_def)
  have b: "0 \<le> b" "b \<le> 4" using r1 r1' r2 by linarith+
  have c: "0 \<le> c" "c \<le> 24" using r2 r2' r3 by linarith+
  have d: "0 \<le> d" "d \<le> 4" using r3 r3' r4 by linarith+
  consider "b = 4" | "b \<le> 3" "d = 4" | "b \<le> 3" "d \<le> 3" using b d by linarith
  then show ?thesis
  proof cases
    case 1
    have z: "r2 = 0" "c = 0" "r3 = 0" "d = 0" "r4 = 0"
      using 1 r1 r1' r2 r2' r3 r3' r4 c d by linarith+
    have y: "a * 400 + 1 + b * 100 + c * 4 + d - 1 = a * 400 + 1 + 3 * 100 + 24 * 4 + 3"
      using 1 z by simp
    have "days_before_year (a * 400 + 1 + 3 * 100 + 24 * 4 + 3) = a * 146097 + 3 * 36524 + 24 * 1461 + 3 * 365"
      by (rule dby_decomp) simp_all
    moreover have "is_leap (a * 400 + 1 + 3 * 100 + 24 * 4 + 3)"
      by (subst leap_decomp) simp_all
    ultimately show ?thesis
      using 1 z n r1' unfolding u y
      by (simp add: ymd2ord_def days_before_month_def days_in_month_def
          DAYS_BEFORE_MONTH_def DAYS_IN_MONTH_def)
  next
    case 2
    have z: "r4 = 0" "r3 = 1460" using 2 r3 r3' r4 by linarith+
    have c23: "c \<le> 23" using z r2 r2' by linarith
    have y: "a * 400 + 1 + b * 100 + c * 4 + d - 1 = a * 400 + 1 + b * 100 + c * 4 + 3"
      using 2 by simp
    have "days_before_year (a * 400 + 1 + b * 100 + c * 4 + 3) = a * 146097 + b * 36524 + c * 1461 + 3 * 365"
      by (rule dby_decomp) (use b c 2 in simp_all)
    moreover have "is_leap (a * 400 + 1 + b * 100 + c * 4 + 3)"
      by (subst leap_decomp) (use b c c23 2 in simp_all)
    ultimately show ?thesis
      using 2 z n r1' r2' unfolding u y
      by (simp add: ymd2ord_def days_before_month_def days_in_month_def
          DAYS_BEFORE_MONTH_def DAYS_IN_MONTH_def)
  next
    case 3
    define y where "y = a * 400 + 1 + b * 100 + c * 4 + d"
    have dby: "days_before_year y = a * 146097 + b * 36524 + c * 1461 + d * 365"
      unfolding y_def by (rule dby_decomp) (use b c d 3 in simp_all)
    have lp: "is_leap y = lp"
      unfolding y_def lp_def by (rule leap_decomp) (use b c d 3 in simp_all)
    define m where "m = (if p0 > r4 then m0 - 1 else m0)"
    define p where "p = (if p0 > r4 then p0 - (DAYS_IN_MONTH ! nat (m0 - 1) + (if m0 - 1 = 2 \<and> lp then 1 else 0)) else p0)"
    have mp: "1 \<le> m \<and> m \<le> 12 \<and> p = DAYS_BEFORE_MONTH ! nat m + (if m > 2 \<and> lp then 1 else 0)
         \<and> p \<le> r4 \<and> r4 - p < (if m = 2 \<and> lp then 29 else DAYS_IN_MONTH ! nat m)"
      unfolding m_def p_def p0_def m0_def
      by (rule month_part) (use r4 in simp_all)
    have "ord2ymd n = (y, m, r4 - p + 1)"
      unfolding u y_def m_def p_def using 3 by (cases "p0 > r4") simp_all
    moreover have "ymd2ord y m (r4 - p + 1) = n"
      using mp dby lp n r1' r2' r3' by (simp add: ymd2ord_def days_before_month_def)
    moreover have "r4 - p + 1 \<le> days_in_month y m"
      using mp lp by (simp add: days_in_month_def)
    ultimately show ?thesis using mp by simp
  qed
qed

lemma ord2ymd_year_range:
  assumes "1 \<le> n" "n \<le> MAXORDINAL"
  shows "1 \<le> fst (ord2ymd n) \<and> fst (ord2ymd n) \<le> 9999"
proof -
  define a where "a = (n - 1) div 146097"
  define r1 where "r1 = (n - 1) mod 146097"
  define b where "b = r1 div 36524"
  define r2 where "r2 = r1 mod 36524"
  define c where "c = r2 div 1461"
  define r3 where "r3 = r2 mod 1461"
  define d where "d = r3 div 365"
  define r4 where "r4 = r3 mod 365"
  note u = ord2ymd_unfold [OF a_def r1_def b_def r2_def c_def r3_def d_def r4_def refl refl refl]
  have n: "n - 1 = a * 146097 + r1" and r1: "0 \<le> r1" "r1 < 146097"
    by (simp_all add: a_def r1_def)
  have r1': "r1 = b * 36524 + r2" and r2: "0 \<le> r2" "r2 < 36524"
    by (simp_all add: b_def r2_def)
  have r2': "r2 = c * 1461 + r3" and r3: "0 \<le> r3" "r3 < 1461"
    by (simp_all add: c_def r3_def)
  have r3': "r3 = d * 365 + r4" and r4: "0 \<le> r4" "r4 < 365"
    by (simp_all add: d_def r4_def)
  have b: "0 \<le> b" "b \<le> 4" using r1 r1' r2 by linarith+
  have c: "0 \<le> c" "c \<le> 24" using r2 r2' r3 by linarith+
  have d: "0 \<le> d" "d \<le> 4" using r3 r3' r4 by linarith+
  have a: "0 \<le> a" "a \<le> 24" using assms n r1 by (simp_all add: MAXORDINAL_def a_def)
  have top: "a = 24 \<Longrightarrow> b * 36524 + c * 1461 + d * 365 \<le> 145730"
    using assms n r1' r2' r3' r4 by (simp add: MAXORDINAL_def)
  have lo: "1 \<le> fst (ord2ymd n)"
    unfolding u using a b c d by auto
  have hi: "fst (ord2ymd n) \<le> 9999"
  proof (cases "a = 24")
    case False
    then have "a \<le> 23" using a by simp
    then show ?thesis unfolding u using b c d by auto
  next
    case True
    note t = top [OF True]
    have b3: "b \<le> 3" using t c d by linarith
    consider "b \<le> 2" | "b = 3" "c \<le> 23" | "b = 3" "c = 24" using b3 c by linarith
    then show ?thesis
    proof cases
      case 1
      then show ?thesis unfolding u using True b c d by auto
    next
      case 2
      then show ?thesis unfolding u using True b c d by auto
    next
      case 3
      then have "d \<le> 2" using t by linarith
      then show ?thesis unfolding u using True 3 d by auto
    qed
  qed
  show ?thesis using lo hi by simp
qed

text \<open>
  The calendar year by year, and the Monday that begins ISO week 1 of a year: a Monday
  within three days of 1 January.
\<close>

lemma div_step:
  fixes z :: int
  assumes "0 < k"
  shows "(z + 1) div k = z div k + (if (z + 1) mod k = 0 then 1 else 0)"
proof -
  define q where "q = z div k"
  define r where "r = z mod k"
  have z: "z = q * k + r" and r: "0 \<le> r" "r < k" using assms by (simp_all add: q_def r_def)
  show ?thesis
  proof (cases "r + 1 = k")
    case True
    have "z + 1 = (q + 1) * k + 0" using z True by (simp add: algebra_simps)
    then have "(z + 1) div k = q + 1" "(z + 1) mod k = 0"
      using assms by (simp_all add: int_div_eqI int_mod_eqI)
    then show ?thesis by (simp add: q_def)
  next
    case False
    have e: "z + 1 = q * k + (r + 1)" using z by simp
    have b: "0 \<le> r + 1" "r + 1 < k" using r False by simp_all
    have "(z + 1) div k = q" by (rule int_div_eqI [OF e b])
    moreover have "(z + 1) mod k = r + 1" by (rule int_mod_eqI [OF e b])
    ultimately show ?thesis using r by (simp add: q_def)
  qed
qed

lemma days_before_year_step:
  "days_before_year (y + 1) = days_before_year y + (if is_leap y then 366 else 365)"
proof -
  have s4: "y div 4 = (y - 1) div 4 + (if y mod 4 = 0 then 1 else 0)"
    using div_step [of 4 "y - 1"] by simp
  have s100: "y div 100 = (y - 1) div 100 + (if y mod 100 = 0 then 1 else 0)"
    using div_step [of 100 "y - 1"] by simp
  have s400: "y div 400 = (y - 1) div 400 + (if y mod 400 = 0 then 1 else 0)"
    using div_step [of 400 "y - 1"] by simp
  have d1: "y mod 100 = 0" if "y mod 400 = 0"
  proof -
    have "(400::int) dvd y" using that by (simp add: mod_eq_0_iff_dvd)
    moreover have "(100::int) dvd 400" by simp
    ultimately have "(100::int) dvd y" using dvd_trans by blast
    then show ?thesis by (simp add: mod_eq_0_iff_dvd)
  qed
  have d2: "y mod 4 = 0" if "y mod 100 = 0"
  proof -
    have "(100::int) dvd y" using that by (simp add: mod_eq_0_iff_dvd)
    moreover have "(4::int) dvd 100" by simp
    ultimately have "(4::int) dvd y" using dvd_trans by blast
    then show ?thesis by (simp add: mod_eq_0_iff_dvd)
  qed
  have lhs: "days_before_year (y + 1) = y * 365 + y div 4 - y div 100 + y div 400"
    by (simp add: days_before_year_def)
  have rhs: "days_before_year y =
      (y - 1) * 365 + (y - 1) div 4 - (y - 1) div 100 + (y - 1) div 400"
    by (simp add: days_before_year_def Let_def)
  have m: "(y - 1) * 365 = y * 365 - 365" by (simp add: algebra_simps)
  consider (a) "y mod 4 \<noteq> 0" | (b) "y mod 4 = 0" "y mod 100 \<noteq> 0"
    | (c) "y mod 100 = 0" "y mod 400 \<noteq> 0" | (d) "y mod 400 = 0" by argo
  then show ?thesis
  proof cases
    case a
    then have "y mod 100 \<noteq> 0" "y mod 400 \<noteq> 0" using d1 d2 by auto
    then show ?thesis unfolding lhs rhs m s4 s100 s400 is_leap_def using a by simp
  next
    case b
    then have "y mod 400 \<noteq> 0" using d1 by auto
    then show ?thesis unfolding lhs rhs m s4 s100 s400 is_leap_def using b by simp
  next
    case c
    then have "y mod 4 = 0" using d2 by auto
    then show ?thesis unfolding lhs rhs m s4 s100 s400 is_leap_def using c by simp
  next
    case d
    then have "y mod 100 = 0" "y mod 4 = 0" using d1 d2 by auto
    then show ?thesis unfolding lhs rhs m s4 s100 s400 is_leap_def using d by simp
  qed
qed

lemma days_before_year_mono: "y \<le> y' \<Longrightarrow> days_before_year y \<le> days_before_year y'"
proof (induction y' rule: int_ge_induct)
  case base
  then show ?case by simp
next
  case (step i)
  then show ?case using days_before_year_step [of i] by (simp split: if_splits)
qed

lemma month_day_bounds:
  assumes "1 \<le> m" "m \<le> 12" "1 \<le> d" "d \<le> days_in_month y m"
  shows "1 \<le> days_before_month y m + d \<and>
         days_before_month y m + d \<le> (if is_leap y then 366 else 365)"
proof -
  have "m = 1 \<or> m = 2 \<or> m = 3 \<or> m = 4 \<or> m = 5 \<or> m = 6 \<or> m = 7
    \<or> m = 8 \<or> m = 9 \<or> m = 10 \<or> m = 11 \<or> m = 12" using assms(1,2) by presburger
  then show ?thesis
    using assms(3,4)
    by (auto simp: days_before_month_def days_in_month_def DAYS_BEFORE_MONTH_def
        DAYS_IN_MONTH_def split: if_splits)
qed

lemma ordinal_in_year:
  assumes "1 \<le> m" "m \<le> 12" "1 \<le> d" "d \<le> days_in_month y m"
  shows "days_before_year y + 1 \<le> ymd2ord y m d \<and> ymd2ord y m d \<le> days_before_year (y + 1)"
  using month_day_bounds [OF assms] days_before_year_step [of y]
  by (simp add: ymd2ord_def split: if_splits)


text \<open>
  \<open>_ymd2ord\<close> is one-to-one on the dates of the calendar, and so is the hour count
  on its datetimes.
\<close>

lemma month_cumulative:
  assumes "1 \<le> m" "m < m'" "m' \<le> 12"
  shows "days_before_month y m + days_in_month y m \<le> days_before_month y m'"
proof -
  have m: "m = 1 \<or> m = 2 \<or> m = 3 \<or> m = 4 \<or> m = 5 \<or> m = 6 \<or> m = 7
    \<or> m = 8 \<or> m = 9 \<or> m = 10 \<or> m = 11" using assms by presburger
  have m': "m' = 2 \<or> m' = 3 \<or> m' = 4 \<or> m' = 5 \<or> m' = 6 \<or> m' = 7
    \<or> m' = 8 \<or> m' = 9 \<or> m' = 10 \<or> m' = 11 \<or> m' = 12" using assms by presburger
  show ?thesis
    using m m' assms(2)
    by (auto simp: days_before_month_def days_in_month_def DAYS_BEFORE_MONTH_def
        DAYS_IN_MONTH_def)
qed

lemma month_day_inj:
  assumes "1 \<le> m" "m \<le> 12" "1 \<le> d" "d \<le> days_in_month y m"
    and "1 \<le> m'" "m' \<le> 12" "1 \<le> d'" "d' \<le> days_in_month y m'"
    and e: "days_before_month y m + d = days_before_month y m' + d'"
  shows "m = m' \<and> d = d'"
proof -
  have "\<not> m < m'"
  proof
    assume "m < m'"
    then have "days_before_month y m + days_in_month y m \<le> days_before_month y m'"
      using assms by (intro month_cumulative) simp_all
    then show False using assms by linarith
  qed
  moreover have "\<not> m' < m"
  proof
    assume "m' < m"
    then have "days_before_month y m' + days_in_month y m' \<le> days_before_month y m"
      using assms by (intro month_cumulative) simp_all
    then show False using assms by linarith
  qed
  ultimately have "m = m'" by simp
  then show ?thesis using e by simp
qed

lemma ymd2ord_inj:
  assumes v: "1 \<le> m" "m \<le> 12" "1 \<le> d" "d \<le> days_in_month y m"
    and v': "1 \<le> m'" "m' \<le> 12" "1 \<le> d'" "d' \<le> days_in_month y' m'"
    and e: "ymd2ord y m d = ymd2ord y' m' d'"
  shows "y = y' \<and> m = m' \<and> d = d'"
proof -
  note a = ordinal_in_year [OF v]
  note b = ordinal_in_year [OF v']
  have "\<not> y < y'"
  proof
    assume "y < y'"
    then have "days_before_year (y + 1) \<le> days_before_year y'"
      by (intro days_before_year_mono) simp
    then show False using a b e by linarith
  qed
  moreover have "\<not> y' < y"
  proof
    assume "y' < y"
    then have "days_before_year (y' + 1) \<le> days_before_year y"
      by (intro days_before_year_mono) simp
    then show False using a b e by linarith
  qed
  ultimately have y: "y = y'" by simp
  have "days_before_month y m + d = days_before_month y m' + d'"
    using e y by (simp add: ymd2ord_def)
  then have "m = m' \<and> d = d'"
    using v v' y by (intro month_day_inj [of m d y m' d']) simp_all
  then show ?thesis using y by simp
qed



section \<open>Properties of the Timestamp Deriver\<close>

lemma timedelta_new_hours:
  "timedelta_new 0 (k * 3600) 0 =
     (if abs (k div 24) > 999999999 then Inl OverflowError
      else Inr \<lparr>days = k div 24, seconds = (k mod 24) * 3600, microseconds = 0\<rparr>)"
proof -
  have k: "k * 3600 = (k div 24) * 86400 + (k mod 24) * 3600"
    using div_mult_mod_eq [of k 24] by linarith
  have r: "0 \<le> (k mod 24) * 3600" "(k mod 24) * 3600 < 86400"
    using pos_mod_bound [of 24 k] pos_mod_sign [of 24 k] by simp_all
  have "(k * 3600) div 86400 = k div 24" by (rule int_div_eqI [OF k r])
  moreover have "(k * 3600) mod 86400 = (k mod 24) * 3600" by (rule int_mod_eqI [OF k r])
  ultimately show ?thesis by (simp add: timedelta_new_def)
qed

lemma midnight_fields:
  "dt_year (midnight y m d) = y" "dt_month (midnight y m d) = m" "dt_day (midnight y m d) = d"
  "dt_hour (midnight y m d) = 0" "dt_minute (midnight y m d) = 0"
  "dt_second (midnight y m d) = 0" "dt_microsecond (midnight y m d) = 0"
  by (simp_all add: midnight_def)

lemma datetime_new_2015: "datetime_new 2015 1 1 0 0 0 0 = Inr (midnight 2015 1 1)"
  by (simp add: datetime_new_def check_fields_def days_in_month_def DAYS_IN_MONTH_def midnight_def)

lemma toordinal_2015: "toordinal (midnight 2015 1 1) = 735599"
  by (simp add: toordinal_def ymd2ord_def days_before_year_def days_before_month_def
      DAYS_BEFORE_MONTH_def midnight_def)

lemma create_date_cases:
  "create_date h =
     (if 1 \<le> 735599 + (h - 1) div 24 \<and> 735599 + (h - 1) div 24 \<le> 3652059 then
        (case ord2ymd (735599 + (h - 1) div 24) of
           (y, m, d) \<Rightarrow>
             Inr \<lparr>dt_year = y, dt_month = m, dt_day = d, dt_hour = (h - 1) mod 24,
                  dt_minute = 0, dt_second = 0, dt_microsecond = 0\<rparr>)
      else Inl OverflowError)"
proof -
  define q where "q = (h - 1) div 24"
  define r where "r = (h - 1) mod 24"
  have r: "0 \<le> r" "r < 24" by (simp_all add: r_def)
  have self: "timedelta_new (toordinal (midnight 2015 1 1)) 0 0 =
      Inr \<lparr>days = 735599, seconds = 0, microseconds = 0\<rparr>"
    by (simp add: toordinal_2015 timedelta_new_def)
  have sum: "timedelta_new (735599 + q) (r * 3600) 0 =
      (if abs (735599 + q) > 999999999 then Inl OverflowError
       else Inr \<lparr>days = 735599 + q, seconds = r * 3600, microseconds = 0\<rparr>)"
    using r by (simp add: timedelta_new_def)
  have hms: "(r * 3600) div 3600 = r" "(r * 3600) mod 3600 = 0" by simp_all
  have add: "datetime_add (midnight 2015 1 1) \<lparr>days = q, seconds = r * 3600, microseconds = 0\<rparr> =
     (if 1 \<le> 735599 + q \<and> 735599 + q \<le> 3652059 then
        (case ord2ymd (735599 + q) of
           (y, m, d) \<Rightarrow>
             Inr \<lparr>dt_year = y, dt_month = m, dt_day = d, dt_hour = r,
                  dt_minute = 0, dt_second = 0, dt_microsecond = 0\<rparr>)
      else Inl OverflowError)"
    by (simp add: datetime_add_def midnight_fields self sum hms MAXORDINAL_def split: prod.splits)
  show ?thesis
    unfolding create_date_def datetime_new_2015 timedelta_new_hours
    using add by (auto simp: q_def r_def)
qed

lemma hour_count_inj:
  assumes "check_fields t" "check_fields t'" "hour_count t = hour_count t'"
    "dt_minute t = dt_minute t'" "dt_second t = dt_second t'"
    "dt_microsecond t = dt_microsecond t'"
  shows "t = t'"
proof -
  have h: "0 \<le> dt_hour t" "dt_hour t \<le> 23" "0 \<le> dt_hour t'" "dt_hour t' \<le> 23"
    using assms(1,2) by (simp_all add: check_fields_def)
  have e: "toordinal t * 24 + dt_hour t = toordinal t' * 24 + dt_hour t'"
    using assms(3) by (simp add: hour_count_def)
  have o: "toordinal t = toordinal t'" using e h by presburger
  then have hh: "dt_hour t = dt_hour t'" using e by simp
  have "dt_year t = dt_year t' \<and> dt_month t = dt_month t' \<and> dt_day t = dt_day t'"
    using assms(1,2) o
    by (intro ymd2ord_inj) (simp_all add: check_fields_def toordinal_def)
  then show ?thesis using hh assms(4-6) by (simp add: datetime.equality)
qed

text \<open>
  Claim C4, amended. \<open>create_date h\<close> is 2015-01-01T00:00:00 plus \<open>h - 1\<close> hours: the one
  datetime of the calendar, on the hour, whose hour count is that of the start plus
  \<open>h - 1\<close>. Hour 1 is 2015-01-01T00:00:00 and hour 8760 is 2015-12-31T23:00:00. The
  range 1 to 8760 is not checked, so every \<open>h\<close> from -17654351 to 69995064 gives the
  date of the formula; beyond these the date would leave the years 1 to 9999 of
  \<open>datetime\<close> and the addition raises \<open>OverflowError\<close>.
\<close>

theorem create_date_formula:
  "(- 17654351 \<le> h \<and> h \<le> 69995064 \<longrightarrow>
      (\<exists>t. create_date h = Inr t \<and> plus_hours (midnight 2015 1 1) (h - 1) t \<and>
           (\<forall>t'. plus_hours (midnight 2015 1 1) (h - 1) t' \<longrightarrow> t' = t))) \<and>
   (h < - 17654351 \<or> 69995064 < h \<longrightarrow> create_date h = Inl OverflowError) \<and>
   create_date 1 = Inr (midnight 2015 1 1) \<and>
   create_date 8760 = Inr ((midnight 2015 12 31)\<lparr>dt_hour := 23\<rparr>)"
proof (intro conjI impI)
  define n where "n = 735599 + (h - 1) div 24"
  assume h: "- 17654351 \<le> h \<and> h \<le> 69995064"
  then have n: "1 \<le> n" "n \<le> 3652059" unfolding n_def by linarith+
  obtain y m d where ymd: "ord2ymd n = (y, m, d)" by (cases "ord2ymd n")
  define t where "t = \<lparr>dt_year = y, dt_month = m, dt_day = d, dt_hour = (h - 1) mod 24,
                  dt_minute = 0, dt_second = 0, dt_microsecond = 0\<rparr>"
  have cd: "create_date h = Inr t"
    using n ymd by (simp add: create_date_cases n_def [symmetric] t_def)
  have c: "1 \<le> m \<and> m \<le> 12 \<and> 1 \<le> d \<and> d \<le> days_in_month y m \<and> ymd2ord y m d = n"
    using ord2ymd_correct [of n] ymd by simp
  have yr: "1 \<le> y \<and> y \<le> 9999"
    using ord2ymd_year_range [of n] n ymd by (simp add: MAXORDINAL_def)
  have cf: "check_fields t" using c yr by (simp add: check_fields_def t_def)
  have "hour_count t = hour_count (midnight 2015 1 1) + (h - 1)"
    using c by (simp add: hour_count_def toordinal_2015 midnight_fields)
      (simp add: toordinal_def t_def n_def)
  then have ph: "plus_hours (midnight 2015 1 1) (h - 1) t"
    using cf by (simp add: plus_hours_def midnight_fields t_def)
  have "t' = t" if "plus_hours (midnight 2015 1 1) (h - 1) t'" for t'
    using that ph by (intro hour_count_inj) (simp_all add: plus_hours_def)
  then show "\<exists>t. create_date h = Inr t \<and> plus_hours (midnight 2015 1 1) (h - 1) t \<and>
           (\<forall>t'. plus_hours (midnight 2015 1 1) (h - 1) t' \<longrightarrow> t' = t)"
    using cd ph by blast
next
  assume "h < - 17654351 \<or> 69995064 < h"
  then have "\<not> (1 \<le> 735599 + (h - 1) div 24 \<and> 735599 + (h - 1) div 24 \<le> 3652059)"
    by linarith
  then show "create_date h = Inl OverflowError"
    by (simp only: create_date_cases if_False)
next
  show "create_date 1 = Inr (midnight 2015 1 1)"
    by (simp add: create_date_cases ord2ymd_def Let_def DI400Y_def DI100Y_def DI4Y_def
        DAYS_BEFORE_MONTH_def DAYS_IN_MONTH_def midnight_def)
next
  show "create_date 8760 = Inr ((midnight 2015 12 31)\<lparr>dt_hour := 23\<rparr>)"
    by (simp add: create_date_cases ord2ymd_def Let_def DI400Y_def DI100Y_def DI4Y_def
        DAYS_BEFORE_MONTH_def DAYS_IN_MONTH_def midnight_def)
qed

theorem create_date_formula_witness:
  "(\<exists>t. create_date 8761 = Inr t \<and> plus_hours (midnight 2015 1 1) 8760 t) \<and>
   create_date 69995065 = Inl OverflowError"
  using create_date_formula [of 8761] create_date_formula [of 69995065] by auto

text \<open>
  Claim C4 as stated fails: hour 1000000000 is an integer outside 1 to 8760, and it
  yields an error, not a date.
\<close>

theorem create_date_overflow: "create_date 1000000000 = Inl OverflowError"
  by (simp add: create_date_cases)

section \<open>Properties of the Reshaper\<close>

lemma concat_uniform_length:
  "list_all (\<lambda>xs. length xs = n) xss \<Longrightarrow> length (concat xss) = length xss * n"
  by (induction xss) auto

lemma concat_uniform_nth:
  "list_all (\<lambda>xs. length xs = n) xss \<Longrightarrow> j < length xss \<Longrightarrow> i < n \<Longrightarrow>
   concat xss ! (j * n + i) = xss ! j ! i"
proof (induction xss arbitrary: j)
  case Nil
  then show ?case by simp
next
  case (Cons xs xss)
  show ?case
  proof (cases j)
    case 0
    then show ?thesis using Cons.prems by (simp add: nth_append)
  next
    case (Suc k)
    have "concat (xs # xss) ! (j * n + i) = concat xss ! (k * n + i)"
      using Cons.prems Suc by (simp add: nth_append)
    then show ?thesis using Cons Suc by simp
  qed
qed

lemma melt_columns_uniform:
  "list_all (\<lambda>xs. length xs = length rs) (map (melt_column rs) jcs)"
  by (simp add: list_all_iff melt_column_def)

text \<open>
  Claim C1. Melting a wide table gives (number of wide rows) times (number of hour
  columns) long rows, one per cell: the long row at position \<open>j * rows + i\<close> is the
  block, sector and value of wide row \<open>i\<close> under the label of hour column \<open>j\<close>.
\<close>

theorem melt_one_row_per_cell:
  "length (melt df) = length (wide_rows df) * length (columns df) \<and>
   (\<forall>i j. i < length (wide_rows df) \<and> j < length (columns df) \<longrightarrow>
      melt df ! (j * length (wide_rows df) + i) =
        \<lparr>GEOID10 = wide_GEOID10 (wide_rows df ! i), Sector = wide_Sector (wide_rows df ! i),
         tC = cell (wide_rows df ! i) j, Hour = columns df ! j\<rparr>)"
proof (intro conjI allI impI)
  let ?rs = "wide_rows df" and ?cs = "columns df"
  let ?xss = "map (melt_column ?rs) (enumerate 0 ?cs)"
  have u: "list_all (\<lambda>xs. length xs = length ?rs) ?xss" by (rule melt_columns_uniform)
  show "length (melt df) = length ?rs * length ?cs"
    using concat_uniform_length [OF u] by (simp add: melt_def)
  fix i j
  assume ij: "i < length ?rs \<and> j < length ?cs"
  then have "concat ?xss ! (j * length ?rs + i) = ?xss ! j ! i"
    using concat_uniform_nth [OF u, of j i] by simp
  also have "\<dots> = melt_column ?rs (j, ?cs ! j) ! i"
    using ij by (simp add: nth_enumerate_eq)
  finally show "melt df ! (j * length ?rs + i) =
        \<lparr>GEOID10 = wide_GEOID10 (?rs ! i), Sector = wide_Sector (?rs ! i),
         tC = cell (?rs ! i) j, Hour = ?cs ! j\<rparr>"
    using ij by (simp add: melt_def melt_column_def)
qed

theorem melt_one_row_per_cell_witness:
  "length (melt ex_wide) = 6 \<and>
   melt ex_wide ! 5 = \<lparr>GEOID10 = 3, Sector = ''com'', tC = None, Hour = LStr ''h3''\<rparr>"
proof -
  have "melt ex_wide ! (2 * length (wide_rows ex_wide) + 1) =
      \<lparr>GEOID10 = wide_GEOID10 (wide_rows ex_wide ! 1), Sector = wide_Sector (wide_rows ex_wide ! 1),
       tC = cell (wide_rows ex_wide ! 1) 2, Hour = columns ex_wide ! 2\<rparr>"
    by (rule melt_one_row_per_cell [of ex_wide, THEN conjunct2, rule_format, of 1 2])
       (simp add: ex_wide_def)
  then show ?thesis
    using melt_one_row_per_cell [of ex_wide, THEN conjunct1]
    by (simp add: ex_wide_def cell_def)
qed

lemmas calendar_eval = ord2ymd_def Let_def DI400Y_def DI100Y_def DI4Y_def DAYS_BEFORE_MONTH_def
  DAYS_IN_MONTH_def ymd2ord_def days_before_year_def days_before_month_def is_leap_def

text \<open>The example long table is what the notebook makes of the example raw table.\<close>

lemma ex_long_pipeline: "long_df_of ex_wide = Inr ex_long"
  by (simp add: long_df_of_def ex_wide_def rename_columns_def rename_dates_def rename_hvars_def
      py_int_def is_digit_def is_space_def digit_value_def create_date_cases melt_def
      melt_column_def cell_def ex_long_def ex_row_def midnight_def week_start_time_def
      fromordinal_def toordinal_def weekday_def calendar_eval)

section \<open>Properties of the weekly key\<close>















section \<open>Properties of the Aggregator\<close>




















section \<open>Properties of the identifier coercion\<close>

text \<open>
  The scanner of \<open>int\<close> accepts exactly the integer literals, and returns their value.
\<close>

lemma is_space_not_digit: "is_space c \<Longrightarrow> \<not> is_digit c \<and> c \<noteq> CHR ''_'' \<and> c \<noteq> CHR ''+'' \<and> c \<noteq> CHR ''-''"
  by (auto simp: is_digit_def is_space_def)

lemma underscore_not_digit: "\<not> is_digit CHR ''_''"
  by (simp add: is_digit_def)

lemma dropWhile_all: "list_all P xs \<Longrightarrow> dropWhile P xs = []"
  by (induction xs) auto

lemma scan_digits_spaces:
  "list_all is_space ws \<Longrightarrow> scan_digits p a ws = Some (a, ws)"
  by (cases ws) (auto simp: is_space_not_digit)

lemma digit_groups_hd: "digit_groups u \<Longrightarrow> u \<noteq> [] \<and> is_digit (hd u)"
  by (induction u rule: digit_groups.induct) auto

lemma scan_digit_groups:
  assumes ws: "list_all is_space ws"
  shows "u \<noteq> [] \<Longrightarrow> is_digit (hd u) \<Longrightarrow> \<not> is_space (last u) \<Longrightarrow>
     (case scan_digits p a (u @ ws) of
        None \<Rightarrow> None
      | Some (v, rest) \<Rightarrow> if dropWhile is_space rest = [] then Some v else None)
     = (if digit_groups u
        then Some (foldl (\<lambda>a c. 10 * a + digit_value c) a (filter is_digit u)) else None)"
proof (induction u arbitrary: p a rule: digit_groups.induct)
  case 1
  then show ?case by simp
next
  case (2 c)
  then show ?case
    using ws by (simp add: scan_digits_spaces list_all_iff)
next
  case (3 c d ds)
  have c: "is_digit c" using 3 by simp
  let ?a = "10 * a + digit_value c"
  have step: "scan_digits p a ((c # d # ds) @ ws) = scan_digits True ?a ((d # ds) @ ws)"
    using c by simp
  consider (us) "d = CHR ''_''" | (dig) "d \<noteq> CHR ''_''" "is_digit d"
    | (other) "d \<noteq> CHR ''_''" "\<not> is_digit d" by blast
  then show ?case
  proof cases
    case us
    show ?thesis
    proof (cases "ds \<noteq> [] \<and> is_digit (hd ds)")
      case True
      then have l: "\<not> is_space (last ds)" using 3(5) by simp
      have hd: "hd (ds @ ws) = hd ds" "ds @ ws \<noteq> []" using True by simp_all
      have "scan_digits True ?a ((d # ds) @ ws) = scan_digits False ?a (ds @ ws)"
        using us hd True by (simp add: underscore_not_digit)
      then show ?thesis
        using 3(1) [OF us, of False ?a] True l c us step by (simp add: underscore_not_digit)
    next
      case False
      have nd: "\<not> digit_groups ds" using False digit_groups_hd by blast
      have "\<not> (ds @ ws \<noteq> [] \<and> is_digit (hd (ds @ ws)))"
      proof (cases ds)
        case Nil
        then show ?thesis using ws by (cases ws) (auto simp: is_space_not_digit)
      next
        case (Cons x xs)
        then show ?thesis using False by simp
      qed
      then have "scan_digits True ?a ((d # ds) @ ws) = None"
        using us by (auto simp: underscore_not_digit)
      then show ?thesis using step nd us c by simp
    qed
  next
    case dig
    have l: "\<not> is_space (last (d # ds))" using 3(5) by simp
    show ?thesis
      using 3(2) [OF dig(1), of True ?a] dig l c step by simp
  next
    case other
    have "scan_digits True ?a ((d # ds) @ ws) = Some (?a, (d # ds) @ ws)"
      using other by simp
    then have sc: "scan_digits p a ((c # d # ds) @ ws) = Some (?a, (d # ds) @ ws)"
      by (simp only: step)
    have nz: "dropWhile is_space ((d # ds) @ ws) \<noteq> []"
    proof
      assume "dropWhile is_space ((d # ds) @ ws) = []"
      then have "\<forall>x \<in> set ((d # ds) @ ws). is_space x"
        by (simp only: dropWhile_eq_Nil_conv)
      then have "is_space (last (d # ds))" by (metis last_in_set Un_iff set_append list.distinct(1))
      then show False using 3(5) by simp
    qed
    have nd: "\<not> digit_groups (c # d # ds)" using other digit_groups_hd [of "d # ds"] by auto
    show ?thesis
      by (simp only: sc nz nd option.case prod.case if_False)
  qed
qed

lemma strip_decomposition:
  obtains ws where "dropWhile is_space s = strip s @ ws" "list_all is_space ws"
    "strip s = [] \<or> (\<not> is_space (hd (strip s)) \<and> \<not> is_space (last (strip s)))"
proof -
  define s1 where "s1 = dropWhile is_space s"
  define ws where "ws = rev (takeWhile is_space (rev s1))"
  have t: "strip s = rev (dropWhile is_space (rev s1))" by (simp add: strip_def s1_def)
  have "rev (takeWhile is_space (rev s1) @ dropWhile is_space (rev s1)) = s1" by simp
  then have dec: "s1 = strip s @ ws" unfolding t ws_def by (simp del: takeWhile_dropWhile_id)
  have sp: "list_all is_space ws"
    unfolding ws_def list_all_iff by (auto dest: set_takeWhileD)
  have last: "strip s = [] \<or> \<not> is_space (last (strip s))"
  proof (cases "dropWhile is_space (rev s1) = []")
    case True
    then show ?thesis by (simp only: t rev.simps simp_thms)
  next
    case False
    then show ?thesis using hd_dropWhile [OF False] by (simp only: t last_rev simp_thms)
  qed
  have "s1 = [] \<or> \<not> is_space (hd s1)"
  proof (cases "s1 = []")
    case False
    then show ?thesis using hd_dropWhile [of is_space s] by (simp only: s1_def simp_thms)
  qed simp
  then have hd: "strip s = [] \<or> \<not> is_space (hd (strip s))" using dec by (cases "strip s") auto
  show ?thesis using that [of ws] dec sp last hd unfolding s1_def by blast
qed

lemma filter_digit_strip: "filter is_digit s = filter is_digit (strip s)"
proof -
  obtain ws where ws: "dropWhile is_space s = strip s @ ws" "list_all is_space ws"
    by (rule strip_decomposition)
  have nd: "list_all is_space xs \<Longrightarrow> filter is_digit xs = []" for xs
    by (auto simp: list_all_iff filter_empty_conv is_space_not_digit)
  have "s = takeWhile is_space s @ strip s @ ws"
    using ws(1) takeWhile_dropWhile_id [of is_space s] by simp
  then have "filter is_digit s = filter is_digit (takeWhile is_space s) @ filter is_digit (strip s) @ filter is_digit ws"
    by (metis filter_append)
  moreover have "list_all is_space (takeWhile is_space s)"
    by (auto simp: list_all_iff dest: set_takeWhileD)
  ultimately show ?thesis using nd ws(2) by simp
qed

lemma accept_sum:
  "(case X of None \<Rightarrow> Inl e | Some (v, rest) \<Rightarrow> if D rest then Inr (f v) else Inl e) =
   (case (case X of None \<Rightarrow> None | Some (v, rest) \<Rightarrow> if D rest then Some v else None) of
      None \<Rightarrow> Inl e | Some v \<Rightarrow> Inr (f v))"
  by (auto split: option.splits)

lemma scan_accept:
  assumes "list_all is_space ws" "u = [] \<or> \<not> is_space (last u)"
  shows "(if u @ ws \<noteq> [] \<and> is_digit (hd (u @ ws)) then
           (case scan_digits False 0 (u @ ws) of
              None \<Rightarrow> Inl ValueError
            | Some (v, rest) \<Rightarrow>
                (if dropWhile is_space rest = [] then Inr (sg * v) else Inl ValueError))
         else Inl ValueError) =
         (if digit_groups u then Inr (sg * decimal (filter is_digit u)) else Inl ValueError)"
proof (cases "u \<noteq> [] \<and> is_digit (hd u)")
  case True
  then have g: "u @ ws \<noteq> [] \<and> is_digit (hd (u @ ws))" by simp
  have l: "\<not> is_space (last u)" using True assms(2) by simp
  show ?thesis
    unfolding accept_sum
    using scan_digit_groups [OF assms(1), of u False 0] True l g
    by (simp add: decimal_def)
next
  case False
  then have nd: "\<not> digit_groups u" using digit_groups_hd by blast
  have g: "\<not> (u @ ws \<noteq> [] \<and> is_digit (hd (u @ ws)))"
  proof (cases u)
    case Nil
    then show ?thesis using assms(1) by (cases ws) (auto simp: is_space_not_digit)
  next
    case (Cons x xs)
    then show ?thesis using False by simp
  qed
  show ?thesis by (simp only: g nd if_False)
qed

lemma py_int_literal:
  "py_int s = (if int_literal s then Inr (literal_value s) else Inl ValueError)"
proof -
  obtain ws where ws: "dropWhile is_space s = strip s @ ws" "list_all is_space ws"
    "strip s = [] \<or> (\<not> is_space (hd (strip s)) \<and> \<not> is_space (last (strip s)))"
    by (rule strip_decomposition)
  define t where "t = strip s"
  note fd = filter_digit_strip [of s, folded t_def]
  show ?thesis
  proof (cases t)
    case Nil
    have s1: "dropWhile is_space s = ws" using ws(1) Nil by (simp add: t_def)
    have "py_int s = Inl ValueError"
      unfolding py_int_def s1 Let_def using ws(2)
      by (cases ws) (auto simp: is_space_not_digit)
    then show ?thesis using Nil by (simp add: int_literal_def t_def [symmetric] unsign_def)
  next
    case (Cons c cs)
    have s1: "dropWhile is_space s = c # cs @ ws" using ws(1) Cons by (simp add: t_def)
    show ?thesis
    proof (cases "c = CHR ''+'' \<or> c = CHR ''-''")
      case True
      have u: "unsign t = cs" using Cons True by (auto simp: unsign_def)
      have l: "cs = [] \<or> \<not> is_space (last cs)" using ws(3) Cons unfolding t_def [symmetric] by auto
      have nd: "\<not> is_digit c" using True by (auto simp: is_digit_def)
      let ?sg = "if c = CHR ''+'' then 1 else - 1 :: int"
      have "py_int s = (if cs @ ws \<noteq> [] \<and> is_digit (hd (cs @ ws)) then
           (case scan_digits False 0 (cs @ ws) of
              None \<Rightarrow> Inl ValueError
            | Some (v, rest) \<Rightarrow>
                (if dropWhile is_space rest = [] then Inr (?sg * v) else Inl ValueError))
         else Inl ValueError)"
        unfolding py_int_def s1 Let_def using True
        by (cases "c = CHR ''+''") simp_all
      also have "\<dots> = (if digit_groups cs then Inr (?sg * decimal (filter is_digit cs)) else Inl ValueError)"
        by (rule scan_accept [OF ws(2) l])
      finally show ?thesis
        using Cons True u nd fd
        by (auto simp: int_literal_def literal_value_def t_def [symmetric])
    next
      case False
      have u: "unsign t = t" using Cons False by (auto simp: unsign_def)
      have l: "t = [] \<or> \<not> is_space (last t)" using ws(3) unfolding t_def [symmetric] by auto
      have s1': "dropWhile is_space s = t @ ws" using ws(1) by (simp add: t_def)
      have "py_int s = (if t @ ws \<noteq> [] \<and> is_digit (hd (t @ ws)) then
           (case scan_digits False 0 (t @ ws) of
              None \<Rightarrow> Inl ValueError
            | Some (v, rest) \<Rightarrow>
                (if dropWhile is_space rest = [] then Inr (1 * v) else Inl ValueError))
         else Inl ValueError)"
        unfolding py_int_def s1' Let_def using False Cons
        by auto
      also have "\<dots> = (if digit_groups t then Inr (1 * decimal (filter is_digit t)) else Inl ValueError)"
        by (rule scan_accept [OF ws(2) l])
      finally show ?thesis
        using Cons False u fd
        by (auto simp: int_literal_def literal_value_def t_def [symmetric])
    qed
  qed
qed

lemma digit_groups_chars: "digit_groups u \<Longrightarrow> list_all (\<lambda>c. is_digit c \<or> c = CHR ''_'') u"
  by (induction u rule: digit_groups.induct) (auto split: if_splits)

lemma int_literal_chars:
  assumes "int_literal s"
  shows "list_all literal_char s"
proof -
  obtain ws where ws: "dropWhile is_space s = strip s @ ws" "list_all is_space ws"
    by (rule strip_decomposition)
  have s: "s = takeWhile is_space s @ strip s @ ws"
    using ws(1) takeWhile_dropWhile_id [of is_space s] by simp
  have u: "list_all literal_char (unsign (strip s))"
    using digit_groups_chars [OF assms [unfolded int_literal_def]]
    by (auto simp: list_all_iff literal_char_def)
  have t: "list_all literal_char (strip s)"
  proof (cases "strip s")
    case Nil
    then show ?thesis by simp
  next
    case (Cons c cs)
    then show ?thesis using u by (auto simp: unsign_def literal_char_def split: if_splits)
  qed
  have "list_all literal_char (takeWhile is_space s)"
    by (auto simp: list_all_iff literal_char_def dest: set_takeWhileD)
  moreover have "list_all literal_char ws"
    using ws(2) by (auto simp: list_all_iff literal_char_def)
  ultimately have "list_all literal_char (takeWhile is_space s @ strip s @ ws)"
    using t by simp
  then show ?thesis using s by simp
qed

lemma digits_literal:
  assumes "ds \<noteq> []" "list_all is_digit ds"
  shows "int_literal ds \<and> literal_value ds = decimal ds"
  using py_int_digits [OF assms] py_int_literal [of ds] by (auto split: if_splits)

lemma apply_int_all:
  "apply_int shape_df =
     (if list_all (\<lambda>r. int_literal (shape_GEOID10 r)) shape_df
      then Inr (map (\<lambda>r. with_int r (literal_value (shape_GEOID10 r))) shape_df)
      else Inl ValueError)"
  unfolding apply_int_def
  by (induction shape_df) (simp_all add: add_GEOID10_int_def py_int_literal with_int_def)

text \<open>
  Claim C9, amended. The coercion of the polygon identifiers fails, with the
  \<open>ValueError\<close> of \<open>int\<close> that nothing catches, exactly when some identifier is not an
  integer literal as \<open>int\<close> reads it: white space around it, one sign and single
  underscores between digits are allowed. Otherwise every row gets the value of its
  literal. A text of digits is such a literal and its value is the number it spells,
  leading zeros dropped; a text with any character other than a digit, white space, a
  sign or an underscore is not one.
\<close>

theorem apply_int_literals:
  "apply_int shape_df =
     (if list_all (\<lambda>r. int_literal (shape_GEOID10 r)) shape_df
      then Inr (map (\<lambda>r. with_int r (literal_value (shape_GEOID10 r))) shape_df)
      else Inl ValueError) \<and>
   (ds \<noteq> [] \<and> list_all is_digit ds \<longrightarrow>
      int_literal ds \<and> literal_value ds = decimal ds \<and>
      int_literal (CHR ''0'' # ds) \<and> literal_value (CHR ''0'' # ds) = decimal ds) \<and>
   (\<not> list_all literal_char s \<longrightarrow> \<not> int_literal s)"
proof (intro conjI impI)
  show "apply_int shape_df =
     (if list_all (\<lambda>r. int_literal (shape_GEOID10 r)) shape_df
      then Inr (map (\<lambda>r. with_int r (literal_value (shape_GEOID10 r))) shape_df)
      else Inl ValueError)"
    by (rule apply_int_all)
next
  assume d: "ds \<noteq> [] \<and> list_all is_digit ds"
  then show "int_literal ds" "literal_value ds = decimal ds"
    using digits_literal [of ds] by simp_all
  have z: "is_digit CHR ''0''" by (simp add: is_digit_def)
  have "int_literal (CHR ''0'' # ds) \<and> literal_value (CHR ''0'' # ds) = decimal (CHR ''0'' # ds)"
    by (rule digits_literal) (use d z in simp_all)
  moreover have "decimal (CHR ''0'' # ds) = decimal ds"
    by (simp add: decimal_def digit_value_def)
  ultimately show "int_literal (CHR ''0'' # ds)" "literal_value (CHR ''0'' # ds) = decimal ds"
    by simp_all
next
  assume "\<not> list_all literal_char s"
  then show "\<not> int_literal s" using int_literal_chars by blast
qed

theorem apply_int_literals_witness:
  "apply_int [polygon ''007'' ''A'', polygon ''12'' ''B''] =
     Inr [polygon_int ''007'' ''A'' 7, polygon_int ''12'' ''B'' 12] \<and>
   apply_int [polygon ''007'' ''A'', polygon ''12A'' ''B''] = Inl ValueError \<and>
   int_literal ''007'' \<and> literal_value ''007'' = 7 \<and> \<not> int_literal ''12A''"
proof -
  have d: "''007'' \<noteq> [] \<and> list_all is_digit ''007''" "''12'' \<noteq> [] \<and> list_all is_digit ''12''"
    by (simp_all add: is_digit_def)
  have c: "\<not> list_all literal_char ''12A''"
    by (simp add: literal_char_def is_digit_def is_space_def)
  note a = apply_int_literals [of _ "''007''" "''12A''", THEN conjunct2]
  note b = apply_int_literals [of _ "''12''" "''12A''", THEN conjunct2]
  have lits: "int_literal ''007''" "literal_value ''007'' = 7" "int_literal ''12''"
    "literal_value ''12'' = 12" "\<not> int_literal ''12A''"
    using a b d c by (simp_all add: decimal_def digit_value_def)
  show ?thesis
    using apply_int_literals [of "[polygon ''007'' ''A'', polygon ''12'' ''B'']" ds s, THEN conjunct1]
      apply_int_literals [of "[polygon ''007'' ''A'', polygon ''12A'' ''B'']" ds s, THEN conjunct1]
      lits
    by (simp add: polygon_def polygon_int_def with_int_def)
qed

text \<open>
  Claim C9 as stated fails: the identifiers \<open>1_0\<close> and \<open> 7\<close> (with a blank in front) are
  not numeric, and the coercion succeeds on them, with the integers 10 and 7.
\<close>

theorem apply_int_accepts_underscore:
  "\<not> list_all is_digit ''1_0'' \<and> \<not> list_all is_digit '' 7'' \<and>
   apply_int [polygon ''1_0'' ''A'', polygon '' 7'' ''B''] =
     Inr [polygon_int ''1_0'' ''A'' 10, polygon_int '' 7'' ''B'' 7]"
  by (simp add: apply_int_def add_GEOID10_int_def polygon_def polygon_int_def py_int_def
      is_digit_def is_space_def digit_value_def)

section \<open>Properties of the Geo-Joiner\<close>










section \<open>The two geo-join implementations\<close>

lemma lower_period_names:
  "lower ''Year'' = ''year''" "lower ''Month'' = ''month''" "lower ''Week'' = ''week''"
  "lower ''Day'' = ''day''" "lower ''Hour'' = ''hour''"
  by code_simp+

lemma read_written_tc:
  "read_pickle (write_tc_datasets a st) ''output_data/hour_tc_dataset.pkl'' = Inr (agg_hour a)"
  "read_pickle (write_tc_datasets a st) ''output_data/day_tc_dataset.pkl'' = Inr (agg_day a)"
  "read_pickle (write_tc_datasets a st) ''output_data/week_tc_dataset.pkl'' = Inr (agg_week a)"
  "read_pickle (write_tc_datasets a st) ''output_data/month_tc_dataset.pkl'' = Inr (agg_month a)"
  "read_pickle (write_tc_datasets a st) ''output_data/year_tc_dataset.pkl'' = Inr (agg_year a)"
  by (simp_all add: read_pickle_def write_tc_datasets_def to_pickle_def)

lemma read_pickle_geo_other:
  "name \<noteq> file \<Longrightarrow> read_pickle (to_pickle t file st) name = read_pickle st name"
  by (simp add: read_pickle_def to_pickle_def)

lemma geo_files_commute:
  "to_pickle (Geo h) ''output_data/hour_geo.pkl''
     (to_pickle (Geo d) ''output_data/day_geo.pkl''
       (to_pickle (Geo w) ''output_data/week_geo.pkl''
         (to_pickle (Geo m) ''output_data/month_geo.pkl''
           (to_pickle (Geo y) ''output_data/year_geo.pkl'' st)))) =
   to_pickle (Geo y) ''output_data/year_geo.pkl''
     (to_pickle (Geo m) ''output_data/month_geo.pkl''
       (to_pickle (Geo w) ''output_data/week_geo.pkl''
         (to_pickle (Geo d) ''output_data/day_geo.pkl''
           (to_pickle (Geo h) ''output_data/hour_geo.pkl'' st))))"
  by (rule ext) (simp add: to_pickle_def)

lemma cleanup_cases:
  "quick_df_cleanup t p =
     (if period_col t = p then Inr \<lparr>period_col = p, rows = map geo_of (rows t)\<rparr> else Inl KeyError)"
  by (simp add: quick_df_cleanup_def)

lemma second_unrolled:
  "second_geo_join shape_df (write_tc_datasets a st) =
     bind (apply_int shape_df) (\<lambda>shape_int.
     bind (quick_df_cleanup (merge (agg_year a) shape_int) ''Year'') (\<lambda>year_geo.
     bind (quick_df_cleanup (merge (agg_month a) shape_int) ''Month'') (\<lambda>month_geo.
     bind (quick_df_cleanup (merge (agg_week a) shape_int) ''Week'') (\<lambda>week_geo.
     bind (quick_df_cleanup (merge (agg_day a) shape_int) ''Day'') (\<lambda>day_geo.
     bind (quick_df_cleanup (merge (agg_hour a) shape_int) ''Hour'') (\<lambda>hour_geo.
       Inr (to_pickle (Geo hour_geo) ''output_data/hour_geo.pkl''
             (to_pickle (Geo day_geo) ''output_data/day_geo.pkl''
               (to_pickle (Geo week_geo) ''output_data/week_geo.pkl''
                 (to_pickle (Geo month_geo) ''output_data/month_geo.pkl''
                   (to_pickle (Geo year_geo) ''output_data/year_geo.pkl''
                     (write_tc_datasets a st))))))))))))"
  by (simp add: second_geo_join_def period_list_def lower_period_names read_written_tc
      read_pickle_geo_other Let_def bind_def split: sum.splits)

lemma first_unrolled:
  "first_geo_join shape_df (write_tc_datasets a st) =
     bind (apply_int shape_df) (\<lambda>shape_int.
     bind (quick_df_cleanup (merge (agg_hour a) shape_int) ''Hour'') (\<lambda>hour_geo.
     bind (quick_df_cleanup (merge (agg_day a) shape_int) ''Day'') (\<lambda>day_geo.
     bind (quick_df_cleanup (merge (agg_week a) shape_int) ''Week'') (\<lambda>week_geo.
     bind (quick_df_cleanup (merge (agg_month a) shape_int) ''Month'') (\<lambda>month_geo.
     bind (quick_df_cleanup (merge (agg_year a) shape_int) ''Year'') (\<lambda>year_geo.
       Inr (to_pickle (Geo year_geo) ''output_data/year_geo.pkl''
             (to_pickle (Geo month_geo) ''output_data/month_geo.pkl''
               (to_pickle (Geo week_geo) ''output_data/week_geo.pkl''
                 (to_pickle (Geo day_geo) ''output_data/day_geo.pkl''
                   (to_pickle (Geo hour_geo) ''output_data/hour_geo.pkl''
                     (write_tc_datasets a st))))))))))))"
  by (simp add: first_geo_join_def read_written_tc bind_def)

lemma aggregator_period_cols:
  "period_col (agg_hour (aggregator long_df)) = ''Hour''"
  "period_col (agg_day (aggregator long_df)) = ''Day''"
  "period_col (agg_week (aggregator long_df)) = ''Week''"
  "period_col (agg_month (aggregator long_df)) = ''Month''"
  "period_col (agg_year (aggregator long_df)) = ''Year''"
  by (simp_all add: aggregator_def long_df_hour_def long_df_day_def long_df_week_def
      long_df_month_def long_df_year_def groupby_sum_def select_period_def)

lemma merge_period_col: "period_col (merge t shape_int) = period_col t"
  by (simp add: merge_def)

text \<open>
  Claim C10. On the five emission files that the aggregator's tables were written to,
  the first geo-join (five merges, five cleanups, five files) and the second (the loop over
  the period names) end alike: with the same error, or with the same directory, in which
  each geo file holds the same table. When the polygon identifiers coerce, both succeed,
  and the file of each period holds the cleaned-up left merge of that period's table,
  under the period's own column name.
\<close>

theorem geo_join_implementations_agree:
  "first_geo_join shape_df (write_tc_datasets a st) =
     second_geo_join shape_df (write_tc_datasets a st) \<and>
   (apply_int shape_df = Inr shape_int \<longrightarrow>
      (\<exists>st'. second_geo_join shape_df (write_tc_datasets (aggregator long_df) st) = Inr st' \<and>
         st' ''output_data/hour_geo.pkl'' =
           Some (Geo \<lparr>period_col = ''Hour'',
                      rows = map geo_of (rows (merge (long_df_hour long_df) shape_int))\<rparr>) \<and>
         st' ''output_data/day_geo.pkl'' =
           Some (Geo \<lparr>period_col = ''Day'',
                      rows = map geo_of (rows (merge (long_df_day long_df) shape_int))\<rparr>) \<and>
         st' ''output_data/week_geo.pkl'' =
           Some (Geo \<lparr>period_col = ''Week'',
                      rows = map geo_of (rows (merge (long_df_week long_df) shape_int))\<rparr>) \<and>
         st' ''output_data/month_geo.pkl'' =
           Some (Geo \<lparr>period_col = ''Month'',
                      rows = map geo_of (rows (merge (long_df_month long_df) shape_int))\<rparr>) \<and>
         st' ''output_data/year_geo.pkl'' =
           Some (Geo \<lparr>period_col = ''Year'',
                      rows = map geo_of (rows (merge (long_df_year long_df) shape_int))\<rparr>)))"
proof (intro conjI impI)
  show "first_geo_join shape_df (write_tc_datasets a st) =
     second_geo_join shape_df (write_tc_datasets a st)"
    unfolding first_unrolled second_unrolled
    by (cases "apply_int shape_df") (auto simp: bind_def cleanup_cases geo_files_commute)
next
  assume ai: "apply_int shape_df = Inr shape_int"
  have c: "quick_df_cleanup (merge (agg_hour (aggregator long_df)) shape_int) ''Hour'' =
        Inr \<lparr>period_col = ''Hour'', rows = map geo_of (rows (merge (long_df_hour long_df) shape_int))\<rparr>"
      "quick_df_cleanup (merge (agg_day (aggregator long_df)) shape_int) ''Day'' =
        Inr \<lparr>period_col = ''Day'', rows = map geo_of (rows (merge (long_df_day long_df) shape_int))\<rparr>"
      "quick_df_cleanup (merge (agg_week (aggregator long_df)) shape_int) ''Week'' =
        Inr \<lparr>period_col = ''Week'', rows = map geo_of (rows (merge (long_df_week long_df) shape_int))\<rparr>"
      "quick_df_cleanup (merge (agg_month (aggregator long_df)) shape_int) ''Month'' =
        Inr \<lparr>period_col = ''Month'', rows = map geo_of (rows (merge (long_df_month long_df) shape_int))\<rparr>"
      "quick_df_cleanup (merge (agg_year (aggregator long_df)) shape_int) ''Year'' =
        Inr \<lparr>period_col = ''Year'', rows = map geo_of (rows (merge (long_df_year long_df) shape_int))\<rparr>"
    using aggregator_period_cols [of long_df]
    by (simp_all add: cleanup_cases merge_period_col) (simp_all add: aggregator_def)
  show "\<exists>st'. second_geo_join shape_df (write_tc_datasets (aggregator long_df) st) = Inr st' \<and>
         st' ''output_data/hour_geo.pkl'' =
           Some (Geo \<lparr>period_col = ''Hour'',
                      rows = map geo_of (rows (merge (long_df_hour long_df) shape_int))\<rparr>) \<and>
         st' ''output_data/day_geo.pkl'' =
           Some (Geo \<lparr>period_col = ''Day'',
                      rows = map geo_of (rows (merge (long_df_day long_df) shape_int))\<rparr>) \<and>
         st' ''output_data/week_geo.pkl'' =
           Some (Geo \<lparr>period_col = ''Week'',
                      rows = map geo_of (rows (merge (long_df_week long_df) shape_int))\<rparr>) \<and>
         st' ''output_data/month_geo.pkl'' =
           Some (Geo \<lparr>period_col = ''Month'',
                      rows = map geo_of (rows (merge (long_df_month long_df) shape_int))\<rparr>) \<and>
         st' ''output_data/year_geo.pkl'' =
           Some (Geo \<lparr>period_col = ''Year'',
                      rows = map geo_of (rows (merge (long_df_year long_df) shape_int))\<rparr>)"
    unfolding second_unrolled
    by (simp add: ai bind_def c to_pickle_def)
qed

theorem geo_join_implementations_agree_witness:
  "\<exists>st'. first_geo_join [polygon ''007'' ''A''] (write_tc_datasets (aggregator ex_long) Map.empty) = Inr st' \<and>
     st' ''output_data/year_geo.pkl'' =
       Some (Geo \<lparr>period_col = ''Year'',
          rows = [\<lparr>GEOID10 = 3, Sector = ''com'', tC = Some 3, Period = Period_Y 2015,
                   Urban_Area = None, Land_Area = None, Water_Area = None, geometry = None\<rparr>,
                  \<lparr>GEOID10 = 7, Sector = ''res'', tC = Some 8, Period = Period_Y 2015,
                   Urban_Area = Some ''A'', Land_Area = Some 10, Water_Area = Some 1,
                   geometry = Some ()\<rparr>]\<rparr>)"
proof -
  have ai: "apply_int [polygon ''007'' ''A''] = Inr [polygon_int ''007'' ''A'' 7]"
    by (simp add: apply_int_def add_GEOID10_int_def polygon_def polygon_int_def py_int_def
        is_digit_def is_space_def digit_value_def)
  have y: "rows (long_df_year ex_long) =
     [\<lparr>GEOID10 = 3, Sector = ''com'', tC = Some 3, Period = Period_Y 2015\<rparr>,
      \<lparr>GEOID10 = 7, Sector = ''res'', tC = Some 8, Period = Period_Y 2015\<rparr>]"
    by (simp add: long_df_year_def groupby_sum_def select_period_def ex_long_def ex_row_def
        group_keys_def group_key_def key_order_def group_sum_def less_eq_prod_def less_prod_def)
  have m: "map geo_of (rows (merge (long_df_year ex_long) [polygon_int ''007'' ''A'' 7])) =
       [\<lparr>GEOID10 = 3, Sector = ''com'', tC = Some 3, Period = Period_Y 2015,
                   Urban_Area = None, Land_Area = None, Water_Area = None, geometry = None\<rparr>,
                  \<lparr>GEOID10 = 7, Sector = ''res'', tC = Some 8, Period = Period_Y 2015,
                   Urban_Area = Some ''A'', Land_Area = Some 10, Water_Area = Some 1,
                   geometry = Some ()\<rparr>]"
    by (simp add: merge_def y merge_row_def polygon_int_def geo_of_def unmatched_def matched_def)
  show ?thesis
    using geo_join_implementations_agree [of "[polygon ''007'' ''A'']" "aggregator ex_long" Map.empty
        "[polygon_int ''007'' ''A'' 7]" ex_long] ai m
    by auto
qed

end
